theory Spec2Isabelle
  imports Main "HOL-Library.List_Lexorder"
begin

section \<open>Python strings\<close>

text \<open>
  A Python \<open>str\<close> is a sequence of Unicode code points, and \<open>len\<close> counts code points.
  A string is therefore modelled as a list of code points (natural numbers), so that the
  en dash U+2013 of the source's literals has length one, as in Python. \<open>py\<close> turns an
  ASCII literal into such a list. Python compares strings lexicographically by code point,
  which is the order of \<open>HOL-Library.List_Lexorder\<close> on \<open>nat list\<close>.
\<close>

type_synonym pystr = "nat list"

definition py :: "string \<Rightarrow> pystr" where
  "py s = map of_char s"

definition EN_DASH :: nat where
  "EN_DASH = 8211"

text \<open>\<open>str(i)\<close> and \<open>f"{i}"\<close> for a Python \<open>int\<close>: decimal digits, with a minus sign.\<close>

fun digits :: "nat \<Rightarrow> pystr" where
  "digits n = (if n < 10 then [48 + n] else digits (n div 10) @ [48 + n mod 10])"

declare digits.simps [simp del]

definition str_int :: "int \<Rightarrow> pystr" where
  "str_int i = (if i < 0 then 45 # digits (nat (- i)) else digits (nat i))"

text \<open>\<open>s.replace(a, b)\<close> for single-character \<open>a\<close> and \<open>b\<close>.\<close>

definition replace_char :: "nat \<Rightarrow> nat \<Rightarrow> pystr \<Rightarrow> pystr" where
  "replace_char a b s = map (\<lambda>c. if c = a then b else c) s"

section \<open>Section table and \<open>get_section_info\<close>\<close>

definition SECTION_MAPPING :: "(pystr \<times> int \<times> int) list" where
  "SECTION_MAPPING =
    [(py ''Fastener_Anchoring_Systems'', 3, 73),
     (py ''Fastening_Systems'', 74, 91),
     (py ''Material_Handling_Storage'', 92, 99),
     (py ''Hand_Tools'', 100, 119),
     (py ''Measuring_Marking'', 120, 131),
     (py ''Ladders'', 132, 134),
     (py ''Cleaning_Supplies'', 135, 143),
     (py ''Jobsite_Supplies'', 144, 171),
     (py ''Building_Materials'', 172, 184),
     (py ''Adhesives_Caulks'', 185, 188),
     (py ''Power_Tools_Equipment_Accessories'', 189, 246),
     (py ''Safety_Equipment_Supplies'', 247, 298)]"

text \<open>
  The loop of \<open>get_section_info\<close> over a table: the first entry whose inclusive bounds
  contain the page returns; falling off the end returns the sentinel pair.
\<close>

fun section_scan :: "(pystr \<times> int \<times> int) list \<Rightarrow> int \<Rightarrow> pystr \<times> pystr" where
  "section_scan [] page_num = (py ''Unknown'', py ''Unknown'')"
| "section_scan ((section_name, start, endp) # rest) page_num =
     (if start \<le> page_num \<and> page_num \<le> endp then
        (let display_name = replace_char 95 32 section_name;
             range_start = (page_num div 10) * 10;
             range_end = range_start + 9;
             page_range = py ''Pages '' @ str_int range_start @ [EN_DASH] @ str_int range_end
         in (display_name, page_range))
      else section_scan rest page_num)"

definition get_section_info :: "int \<Rightarrow> pystr \<times> pystr" where
  "get_section_info page_num = section_scan SECTION_MAPPING page_num"

section \<open>Character classes and string primitives\<close>

text \<open>
  \<open>str.isspace\<close>, \<open>str.strip\<close> and the regular-expression class \<open>\s\<close> all use
  CPython's one whitespace table: TAB..CR, FS..US, SPACE, NEL, NBSP, U+1680, U+2000..U+200A,
  U+2028, U+2029, U+202F, U+205F and U+3000.
\<close>

definition isspace :: "nat \<Rightarrow> bool" where
  "isspace c = (9 \<le> c \<and> c \<le> 13 \<or> 28 \<le> c \<and> c \<le> 32 \<or> c = 133 \<or> c = 160 \<or> c = 5760 \<or>
                8192 \<le> c \<and> c \<le> 8202 \<or> c = 8232 \<or> c = 8233 \<or> c = 8239 \<or> c = 8287 \<or>
                c = 12288)"

definition is_AZ :: "nat \<Rightarrow> bool" where
  "is_AZ c = (65 \<le> c \<and> c \<le> 90)"

definition is_az :: "nat \<Rightarrow> bool" where
  "is_az c = (97 \<le> c \<and> c \<le> 122)"

definition is_09 :: "nat \<Rightarrow> bool" where
  "is_09 c = (48 \<le> c \<and> c \<le> 57)"

text \<open>
  The remaining character functions of Python (\<open>isalpha\<close>, \<open>isupper\<close>, the word
  characters of \<open>\b\<close>, \<open>upper\<close>, \<open>lower\<close>) read the Unicode character database of
  the interpreter, which is no part of the program. They are a parameter \<open>U\<close> of every
  function that uses them, so each theorem below holds whatever these tables say.
  \<open>upper\<close> and \<open>lower\<close> act on whole strings, since Python's case mappings can change
  the length of a string and depend on context.
\<close>

record ucd =
  py_isalpha :: "nat \<Rightarrow> bool"
  py_isupper :: "nat \<Rightarrow> bool"
  py_isalnum :: "nat \<Rightarrow> bool"
  py_upper :: "pystr \<Rightarrow> pystr"
  py_lower :: "pystr \<Rightarrow> pystr"

text \<open>
  The tables restricted to ASCII letters and digits, every other code point being caseless
  and neither a letter nor a digit. On strings of ASCII characters and caseless punctuation
  such as the en dash this is what CPython computes; it is used to evaluate the program on
  such inputs.
\<close>

definition ascii_ucd :: ucd where
  "ascii_ucd =
    \<lparr> py_isalpha = (\<lambda>c. is_AZ c \<or> is_az c),
      py_isupper = is_AZ,
      py_isalnum = (\<lambda>c. is_AZ c \<or> is_az c \<or> is_09 c),
      py_upper = map (\<lambda>c. if is_az c then c - 32 else c),
      py_lower = map (\<lambda>c. if is_AZ c then c + 32 else c) \<rparr>"

definition lstrip :: "pystr \<Rightarrow> pystr" where
  "lstrip s = dropWhile isspace s"

definition rstrip :: "pystr \<Rightarrow> pystr" where
  "rstrip s = rev (dropWhile isspace (rev s))"

definition strip :: "pystr \<Rightarrow> pystr" where
  "strip s = rstrip (lstrip s)"

text \<open>\<open>s.startswith(p)\<close> and the substring test \<open>sub in s\<close>.\<close>

fun startswith :: "pystr \<Rightarrow> pystr \<Rightarrow> bool" where
  "startswith s [] = True"
| "startswith [] (p # ps) = False"
| "startswith (c # s) (p # ps) = (c = p \<and> startswith s ps)"

fun str_in :: "pystr \<Rightarrow> pystr \<Rightarrow> bool" where
  "str_in sub [] = (sub = [])"
| "str_in sub (c # s) = (startswith (c # s) sub \<or> str_in sub s)"

text \<open>\<open>sep.join(xs)\<close> and \<open>s.split(d)\<close> for a one-character separator \<open>d\<close>.\<close>

fun join :: "pystr \<Rightarrow> pystr list \<Rightarrow> pystr" where
  "join sep [] = []"
| "join sep [x] = x"
| "join sep (x # y # ys) = x @ sep @ join sep (y # ys)"

fun split :: "nat \<Rightarrow> pystr \<Rightarrow> pystr list" where
  "split d [] = [[]]"
| "split d (c # s) =
     (if c = d then [] # split d s
      else (case split d s of [] \<Rightarrow> [[c]] | l # ls \<Rightarrow> (c # l) # ls))"

section \<open>Regular expressions\<close>

text \<open>
  Python's \<open>re\<close> is a backtracking matcher. A pattern is modelled by the function that
  maps a position in the subject to the list of positions at which a match of the pattern
  can end, in the order in which the matcher tries them; the match reported is the head of
  that list. A position is the pair of the text before it (reversed, so that the character
  just before the position is at the head) and the text after it. Every repetition in the
  source's patterns is a greedy repetition of a character set with a lower bound
  (\<open>+\<close> is \<open>{1,}\<close>), which tries the longest run first and then gives characters back
  one at a time.
\<close>

type_synonym cursor = "pystr \<times> pystr"
type_synonym rx = "cursor \<Rightarrow> cursor list"

definition rx_set :: "(nat \<Rightarrow> bool) \<Rightarrow> rx" where
  "rx_set P = (\<lambda>(b, a). case a of [] \<Rightarrow> [] | c # a' \<Rightarrow> if P c then [(c # b, a')] else [])"

definition rx_seq :: "rx \<Rightarrow> rx \<Rightarrow> rx" where
  "rx_seq r1 r2 = (\<lambda>cur. concat (map r2 (r1 cur)))"

definition rx_alts :: "rx list \<Rightarrow> rx" where
  "rx_alts rs = (\<lambda>cur. concat (map (\<lambda>r. r cur) rs))"

fun rx_lit :: "pystr \<Rightarrow> rx" where
  "rx_lit [] = (\<lambda>cur. [cur])"
| "rx_lit (c # w) = rx_seq (rx_set (\<lambda>x. x = c)) (rx_lit w)"

fun rx_rep :: "(nat \<Rightarrow> bool) \<Rightarrow> nat \<Rightarrow> pystr \<Rightarrow> pystr \<Rightarrow> cursor list" where
  "rx_rep P n b [] = (if n = 0 then [(b, [])] else [])"
| "rx_rep P n b (c # a) =
     (if P c then rx_rep P (n - 1) (c # b) a else []) @ (if n = 0 then [(b, c # a)] else [])"

definition rx_repeat :: "(nat \<Rightarrow> bool) \<Rightarrow> nat \<Rightarrow> rx" where
  "rx_repeat P n = (\<lambda>(b, a). rx_rep P n b a)"

text \<open>
  \<open>\b\<close>: the characters on the two sides differ in being word characters, the start and
  the end of the string counting as non-word.
\<close>

definition rx_wordb :: "(nat \<Rightarrow> bool) \<Rightarrow> rx" where
  "rx_wordb isword =
     (\<lambda>(b, a). if (case b of [] \<Rightarrow> False | c # _ \<Rightarrow> isword c) \<noteq>
                   (case a of [] \<Rightarrow> False | c # _ \<Rightarrow> isword c)
               then [(b, a)] else [])"

text \<open>
  \<open>re.findall\<close> scans from the left: at a position with no match it moves one character
  on; after a match it reports the matched text and goes on from the end of the match. (A
  match that consumes nothing moves one character on; no pattern of the source can match
  the empty string.) Each pattern of the source is one group around the whole pattern, so
  the text reported is the whole match.
\<close>

function findall_from :: "rx \<Rightarrow> pystr \<Rightarrow> pystr \<Rightarrow> pystr list" where
  "findall_from r b a =
     (case r (b, a) of
        [] \<Rightarrow> (case a of [] \<Rightarrow> [] | c # a' \<Rightarrow> findall_from r (c # b) a')
      | (b', a') # _ \<Rightarrow>
          take (length a - length a') a #
          (if length a' < length a then findall_from r b' a'
           else (case a of [] \<Rightarrow> [] | c # a'' \<Rightarrow> findall_from r (c # b) a'')))"
  by pat_completeness auto
termination
  by (relation "measure (\<lambda>(r, b, a). length a)") auto

declare findall_from.simps [simp del]

definition findall :: "rx \<Rightarrow> pystr \<Rightarrow> pystr list" where
  "findall r s = findall_from r [] s"

text \<open>\<open>re.sub(pattern, repl, s)\<close>: the same scan, copying unmatched characters.\<close>

function sub_from :: "rx \<Rightarrow> pystr \<Rightarrow> pystr \<Rightarrow> pystr \<Rightarrow> pystr" where
  "sub_from r repl b a =
     (case r (b, a) of
        [] \<Rightarrow> (case a of [] \<Rightarrow> [] | c # a' \<Rightarrow> c # sub_from r repl (c # b) a')
      | (b', a') # _ \<Rightarrow>
          repl @
          (if length a' < length a then sub_from r repl b' a'
           else (case a of [] \<Rightarrow> [] | c # a'' \<Rightarrow> c # sub_from r repl (c # b) a'')))"
  by pat_completeness auto
termination
  by (relation "measure (\<lambda>(r, repl, b, a). length a)") auto

declare sub_from.simps [simp del]

definition re_sub :: "rx \<Rightarrow> pystr \<Rightarrow> pystr \<Rightarrow> pystr" where
  "re_sub r repl s = sub_from r repl [] s"

text \<open>The pattern \<open>\s+\<close>.\<close>

definition rx_spaces :: rx where
  "rx_spaces = rx_repeat isspace 1"

section \<open>\<open>clean_text\<close>\<close>

definition clean_text :: "pystr \<Rightarrow> pystr" where
  "clean_text text =
     (let text = re_sub rx_spaces (py '' '') text;
          text = replace_char 12 32 text
      in strip text)"

section \<open>\<open>extract_title\<close>\<close>

text \<open>
  The test \<open>sum(c.isupper() ...) / max(len([...]), 1) > 0.6\<close> divides two integers
  \<open>a\<close> and \<open>b\<close> into a double and compares it with the double nearest to 0.6. Both
  roundings are monotone and the double of 3/5 is that of 0.6, so the test is \<open>5a > 3b\<close>
  for every line of fewer than \<open>10^15\<close> letters, which is how it is written here.
\<close>

definition is_heading :: "ucd \<Rightarrow> pystr \<Rightarrow> bool" where
  "is_heading U line =
     (length line > 5 \<and>
      5 * length (filter (py_isupper U) (filter (py_isalpha U) line)) >
      3 * max (length (filter (py_isalpha U) line)) 1)"

definition title_skip :: "pystr list" where
  "title_skip = [py ''CAT #'', py ''PART NO'', py ''SKU'', py ''DESCRIPTION'', py ''QTY'', py ''BOX'']"

definition title_lines :: "pystr \<Rightarrow> pystr list" where
  "title_lines text = map strip (filter (\<lambda>line. strip line \<noteq> []) (split 10 text))"

definition has_skip_pattern :: "ucd \<Rightarrow> pystr \<Rightarrow> bool" where
  "has_skip_pattern U line = list_ex (\<lambda>skip. str_in skip (py_upper U line)) title_skip"

definition title_headings :: "ucd \<Rightarrow> pystr list \<Rightarrow> pystr list" where
  "title_headings U lines =
     map strip
       (filter (\<lambda>line. is_heading U line \<and> \<not> has_skip_pattern U line) (take 30 lines))"

definition extract_title :: "ucd \<Rightarrow> pystr \<Rightarrow> int \<Rightarrow> pystr" where
  "extract_title U text page_num =
     (let lines = title_lines text;
          headings = title_headings U lines
      in if headings \<noteq> [] then
           (let title = join ([32, EN_DASH, 32]) (take 2 headings)
            in if length title > 80 then take 77 title @ py ''...'' else title)
         else
           (case find (\<lambda>line. length line > 10 \<and> \<not> startswith line (py ''CAT'')) (take 20 lines) of
              Some line \<Rightarrow> take 80 line
            | None \<Rightarrow>
                (let section = fst (get_section_info page_num)
                 in section @ [32, EN_DASH, 32] @ py ''Page '' @ str_int page_num)))"

section \<open>\<open>extract_products\<close>\<close>

definition product_suffixes :: "pystr list" where
  "product_suffixes =
     [py ''Gun'', py ''Nailer'', py ''Drill'', py ''Saw'', py ''Tool'', py ''Anchor'',
      py ''Fastener'', py ''Bit'', py ''System'', py ''Kit'', py ''Set'']"

definition product_patterns :: "rx list" where
  "product_patterns =
     [rx_seq (rx_set is_AZ)
        (rx_seq (rx_repeat (\<lambda>c. is_AZ c \<or> is_az c \<or> is_09 c \<or> isspace c \<or>
                                c = 45 \<or> c = 38 \<or> c = 47) 1)
                (rx_alts (map rx_lit product_suffixes))),
      rx_seq (rx_set is_AZ) (rx_repeat (\<lambda>c. is_AZ c \<or> isspace c) 5),
      rx_seq (rx_repeat (\<lambda>c. is_AZ c \<or> is_09 c \<or> c = 45) 4) (rx_set (\<lambda>c. is_AZ c \<or> is_09 c))]"

definition product_headers :: "pystr list" where
  "product_headers =
     [py ''CAT #'', py ''PART NO'', py ''SKU'', py ''DESCRIPTION'', py ''QTY'', py ''SIZE'']"

definition is_table_header :: "ucd \<Rightarrow> pystr \<Rightarrow> bool" where
  "is_table_header U line = list_ex (\<lambda>header. str_in header (py_upper U line)) product_headers"

text \<open>The body of the innermost loop: one match of one pattern.\<close>

definition add_match :: "pystr list \<Rightarrow> pystr \<Rightarrow> pystr list" where
  "add_match products m =
     (let m = strip m
      in if length m > 4 \<and> length m < 60 then
           (let m = re_sub rx_spaces (py '' '') m
            in if m \<notin> set products then products @ [m] else products)
         else products)"

text \<open>The body of the loop over lines, with its two \<open>continue\<close> statements.\<close>

definition scan_line :: "ucd \<Rightarrow> pystr list \<Rightarrow> pystr \<Rightarrow> pystr list" where
  "scan_line U products line =
     (let line = strip line
      in if line = [] \<or> length line < 4 then products
         else if is_table_header U line then products
         else foldl (\<lambda>products pattern. foldl add_match products (findall pattern line))
                products product_patterns)"

definition extract_products :: "ucd \<Rightarrow> pystr \<Rightarrow> pystr list" where
  "extract_products U text =
     (let lines = split 10 text;
          products = foldl (scan_line U) [] (take 50 lines)
      in take 10 products)"

section \<open>\<open>extract_keywords\<close>\<close>

definition common_terms :: "pystr list" where
  "common_terms =
     [py ''drill'', py ''saw'', py ''nailer'', py ''hammer'', py ''wrench'', py ''pliers'',
      py ''screwdriver'',
      py ''anchor'', py ''fastener'', py ''bolt'', py ''screw'', py ''nail'', py ''pin'',
      py ''rivet'',
      py ''cordless'', py ''electric'', py ''pneumatic'', py ''manual'', py ''power tool'',
      py ''concrete'', py ''steel'', py ''wood'', py ''metal'', py ''plastic'',
      py ''safety'', py ''protective'', py ''gloves'', py ''glasses'', py ''mask'',
      py ''measuring'', py ''tape'', py ''level'', py ''square'',
      py ''ladder'', py ''scaffold'', py ''platform'',
      py ''cleaning'', py ''supplies'', py ''chemical'',
      py ''storage'', py ''box'', py ''cabinet'', py ''cart'',
      py ''dewalt'', py ''milwaukee'', py ''hilti'', py ''stanley'', py ''red head'']"

text \<open>The pattern \<open>\b[a-z]{4,}\b\<close>; a word character is an alphanumeric or an underscore.\<close>

definition word_pattern :: "ucd \<Rightarrow> rx" where
  "word_pattern U =
     (let isword = (\<lambda>c. py_isalnum U c \<or> c = 95)
      in rx_seq (rx_wordb isword) (rx_seq (rx_repeat is_az 4) (rx_wordb isword)))"

text \<open>The set \<open>keywords\<close> as it stands before the \<open>return\<close>.\<close>

definition keyword_set :: "ucd \<Rightarrow> pystr \<Rightarrow> pystr \<Rightarrow> pystr list \<Rightarrow> pystr set" where
  "keyword_set U text title products =
     (let text_lower = py_lower U text;
          title_words = findall (word_pattern U) (py_lower U title)
      in set (filter (\<lambda>term. str_in term text_lower) common_terms) \<union>
         set (filter (\<lambda>word. word \<notin> set [py ''page'', py ''pages'', py ''catalog'']) title_words) \<union>
         set (concat (map (\<lambda>product. take 3 (findall (word_pattern U) (py_lower U product)))
                          products)))"

definition extract_keywords :: "ucd \<Rightarrow> pystr \<Rightarrow> pystr \<Rightarrow> pystr list \<Rightarrow> pystr list" where
  "extract_keywords U text title products =
     take 15 (sorted_list_of_set (keyword_set U text title products))"

section \<open>\<open>generate_summary\<close>\<close>

definition generate_summary :: "ucd \<Rightarrow> pystr \<Rightarrow> pystr \<Rightarrow> pystr list \<Rightarrow> pystr" where
  "generate_summary U text title products =
     (let section_info =
            (if products \<noteq> [] then
               (let product_list =
                      (if length products \<le> 3 then join (py '', '') products
                       else join (py '', '') (take 3 products) @ py '', and '' @
                            str_int (int (length products) - 3) @ py '' more'')
                in py ''Features '' @ product_list @ py ''. '')
             else []);
          text_lower = py_lower U text;
          content_type =
            (if str_in (py ''specifications'') text_lower \<or> str_in (py ''spec'') text_lower
             then [py ''specifications''] else []) @
            (if str_in (py ''accessories'') text_lower then [py ''accessories''] else []) @
            (if str_in (py ''model'') text_lower \<or> str_in (py ''cat #'') text_lower
             then [py ''product listings''] else []) @
            (if str_in (py ''application'') text_lower \<or> str_in (py ''use'') text_lower
             then [py ''application details''] else []);
          content_desc =
            (if content_type \<noteq> [] then join (py '' and '') content_type
             else py ''product information'')
      in section_info @ py ''This page includes '' @ content_desc @ py ''.'')"

section \<open>\<open>process_pdf\<close> and \<open>main\<close>\<close>

record entry =
  entry_page :: int
  entry_filename :: pystr
  entry_thumbnail :: pystr
  entry_section :: pystr
  entry_pageRangeGroup :: pystr
  entry_title :: pystr
  entry_products :: "pystr list"
  entry_keywords :: "pystr list"
  entry_summary :: pystr

text \<open>The format \<open>{page_num:04d}\<close>: zero-padded to width four, the sign included.\<close>

definition fmt_04d :: "int \<Rightarrow> pystr" where
  "fmt_04d i =
     (if i < 0 then 45 # replicate (3 - length (digits (nat (- i)))) 48 @ digits (nat (- i))
      else replicate (4 - length (digits (nat i))) 48 @ digits (nat i))"

text \<open>
  \<open>process_pdf\<close> reads the page through \<open>pdftotext\<close>; the text that
  \<open>extract_text_from_pdf\<close> returns (the empty string when the tool fails) is the
  argument \<open>raw\<close> here.
\<close>

definition process_pdf :: "ucd \<Rightarrow> pystr \<Rightarrow> int \<Rightarrow> entry" where
  "process_pdf U raw page_num =
     (let text = (if raw = [] then [] else raw);
          text = clean_text text;
          (section, page_range) = get_section_info page_num;
          title = extract_title U text page_num;
          products = extract_products U text;
          keywords = extract_keywords U text title products;
          summary = generate_summary U text title products
      in \<lparr> entry_page = page_num,
           entry_filename = py ''ocr_trim_page_'' @ fmt_04d page_num @ py ''.pdf'',
           entry_thumbnail = py ''thumbnails/page_'' @ fmt_04d page_num @ py ''.png'',
           entry_section = section,
           entry_pageRangeGroup = page_range,
           entry_title = title,
           entry_products = products,
           entry_keywords = keywords,
           entry_summary = summary \<rparr>)"

text \<open>
  \<open>section_groups\<close> is a \<open>defaultdict(list)\<close>: a map in which a missing key reads as
  the empty list. \<open>section_index\<close> is a dictionary written to JSON in insertion order: an
  association list, where assigning to a key that is present replaces its value in place.
\<close>

record section_entry =
  range_str :: pystr
  pages :: "int list"

definition get_group :: "(pystr \<rightharpoonup> int list) \<Rightarrow> pystr \<Rightarrow> int list" where
  "get_group section_groups k = (case section_groups k of None \<Rightarrow> [] | Some ps \<Rightarrow> ps)"

text \<open>The body of the loop over the sorted files, each file given by its page number and its text.\<close>

definition process_step ::
  "ucd \<Rightarrow> entry list \<times> (pystr \<rightharpoonup> int list) \<Rightarrow> int \<times> pystr \<Rightarrow> entry list \<times> (pystr \<rightharpoonup> int list)" where
  "process_step U st pdf =
     (case (st, pdf) of ((catalog_entries, section_groups), (page_num, raw)) \<Rightarrow>
        (let e = process_pdf U raw page_num
         in (catalog_entries @ [e],
             section_groups(entry_section e \<mapsto> get_group section_groups (entry_section e) @ [page_num]))))"

fun assign :: "'k \<Rightarrow> 'v \<Rightarrow> ('k \<times> 'v) list \<Rightarrow> ('k \<times> 'v) list" where
  "assign k v [] = [(k, v)]"
| "assign k v ((k', v') # d) = (if k' = k then (k, v) # d else (k', v') # assign k v d)"

definition build_section_index ::
  "(pystr \<rightharpoonup> int list) \<Rightarrow> (pystr \<times> section_entry) list" where
  "build_section_index section_groups =
     foldl (\<lambda>section_index (section_name, start, endp).
              (let display_name = replace_char 95 32 section_name
               in assign display_name
                    \<lparr> range_str = str_int start @ [EN_DASH] @ str_int endp,
                      pages = get_group section_groups display_name \<rparr>
                    section_index))
           [] SECTION_MAPPING"

definition main :: "ucd \<Rightarrow> (int \<times> pystr) list \<Rightarrow> entry list \<times> (pystr \<times> section_entry) list" where
  "main U pdf_files =
     (let pdf_files = sort_key fst pdf_files;
          (catalog_entries, section_groups) = foldl (process_step U) ([], Map.empty) pdf_files
      in (catalog_entries, build_section_index section_groups))"

section \<open>Auxiliary functions for the proofs\<close>

text \<open>
  What \<open>re.sub(r'\s+', ' ', text)\<close> computes, as a recursion over the text: every maximal
  run of whitespace becomes one space. \<open>single_spaced\<close> describes its results: the only
  whitespace character is the space, and no space is followed by whitespace.
\<close>

function collapse :: "pystr \<Rightarrow> pystr" where
  "collapse [] = []"
| "collapse (c # s) = (if isspace c then 32 # collapse (dropWhile isspace s) else c # collapse s)"
  by pat_completeness auto
termination
  by (relation "measure length") (simp_all add: length_dropWhile_le le_imp_less_Suc)

fun single_spaced :: "pystr \<Rightarrow> bool" where
  "single_spaced [] = True"
| "single_spaced [c] = (isspace c \<longrightarrow> c = 32)"
| "single_spaced (c # d # s) = ((isspace c \<longrightarrow> c = 32 \<and> \<not> isspace d) \<and> single_spaced (d # s))"

text \<open>
  A page of thirty-one lines: thirty lines "1" and, as its last line, "HEAVY DUTY ANCHOR".
\<close>

definition thirty_one_lines :: pystr where
  "thirty_one_lines =
     py ''1\<newline>1\<newline>1\<newline>1\<newline>1\<newline>1\<newline>1\<newline>1\<newline>1\<newline>1\<newline>'' @
     py ''1\<newline>1\<newline>1\<newline>1\<newline>1\<newline>1\<newline>1\<newline>1\<newline>1\<newline>1\<newline>'' @
     py ''1\<newline>1\<newline>1\<newline>1\<newline>1\<newline>1\<newline>1\<newline>1\<newline>1\<newline>1\<newline>'' @
     py ''HEAVY DUTY ANCHOR''"

section \<open>Evaluation\<close>

text \<open>The defining equations that evaluate the program on a concrete input.\<close>

lemmas string_eval =
  py_def EN_DASH_def isspace_def is_AZ_def is_az_def is_09_def ascii_ucd_def
  lstrip_def rstrip_def strip_def replace_char_def Let_def

lemmas regex_eval =
  rx_set_def rx_seq_def rx_alts_def rx_repeat_def rx_wordb_def rx_spaces_def
  findall_def findall_from.simps re_sub_def sub_from.simps

lemmas products_eval =
  product_suffixes_def product_patterns_def product_headers_def is_table_header_def
  add_match_def scan_line_def extract_products_def

section \<open>Section lookup\<close>

lemma section_scan_find:
  "section_scan tbl page =
     (case find (\<lambda>(n, s, e). s \<le> page \<and> page \<le> e) tbl of
        None \<Rightarrow> (py ''Unknown'', py ''Unknown'')
      | Some (n, s, e) \<Rightarrow>
          (replace_char 95 32 n,
           py ''Pages '' @ str_int (page div 10 * 10) @ [EN_DASH] @ str_int (page div 10 * 10 + 9)))"
  by (induction tbl page rule: section_scan.induct) (simp_all add: Let_def)

lemma section_starts:
  "list_all (\<lambda>(n, s, e). fst (get_section_info s) = replace_char 95 32 n) SECTION_MAPPING"
  by (simp add: get_section_info_def SECTION_MAPPING_def Let_def)

lemma section_ends:
  "list_all (\<lambda>(n, s, e). fst (get_section_info e) = replace_char 95 32 n) SECTION_MAPPING"
  by (simp add: get_section_info_def SECTION_MAPPING_def Let_def)

text \<open>
  Claim C2. For every integer page number, \<open>get_section_info\<close> returns the display name of
  the first entry of the table, in table order, whose inclusive bounds contain the page
  (the scan over any table, overlapping or not, is \<open>find\<close>); the start and the end of every
  range of the fixed table resolve to that range's display name; and a page that no range
  contains gives the pair ("Unknown", "Unknown"). The function is total: no page raises.
\<close>

theorem C2_section_resolver:
  "section_scan tbl page =
     (case find (\<lambda>(n, s, e). s \<le> page \<and> page \<le> e) tbl of
        None \<Rightarrow> (py ''Unknown'', py ''Unknown'')
      | Some (n, s, e) \<Rightarrow>
          (replace_char 95 32 n,
           py ''Pages '' @ str_int (page div 10 * 10) @ [EN_DASH] @ str_int (page div 10 * 10 + 9)))
   \<and> get_section_info page = section_scan SECTION_MAPPING page
   \<and> (\<forall>(n, s, e) \<in> set SECTION_MAPPING.
         fst (get_section_info s) = replace_char 95 32 n \<and>
         fst (get_section_info e) = replace_char 95 32 n)
   \<and> ((\<forall>(n, s, e) \<in> set SECTION_MAPPING. \<not> (s \<le> page \<and> page \<le> e)) \<longrightarrow>
         get_section_info page = (py ''Unknown'', py ''Unknown''))"
proof -
  have unknown: "get_section_info page = (py ''Unknown'', py ''Unknown'')"
    if "\<forall>(n, s, e) \<in> set SECTION_MAPPING. \<not> (s \<le> page \<and> page \<le> e)"
  proof -
    from that have "find (\<lambda>(n, s, e). s \<le> page \<and> page \<le> e) SECTION_MAPPING = None"
      by (auto simp: find_None_iff)
    then show ?thesis
      by (simp add: get_section_info_def section_scan_find)
  qed
  have bounds: "\<forall>(n, s, e) \<in> set SECTION_MAPPING.
      fst (get_section_info s) = replace_char 95 32 n \<and>
      fst (get_section_info e) = replace_char 95 32 n"
    using section_starts section_ends by (auto simp: list_all_iff)
  show ?thesis
    using unknown bounds by (simp add: section_scan_find get_section_info_def)
qed

theorem C2_section_resolver_witness:
  "get_section_info 299 = (py ''Unknown'', py ''Unknown'')
   \<and> fst (get_section_info 73) = py ''Fastener Anchoring Systems''
   \<and> fst (get_section_info 74) = py ''Fastening Systems''
   \<and> fst (section_scan [(py ''A_B'', 1, 5), (py ''C'', 3, 9)] 4) = py ''A B''"
proof -
  have none: "\<forall>(n, s, e) \<in> set SECTION_MAPPING. \<not> (s \<le> (299::int) \<and> 299 \<le> e)"
    by (simp add: SECTION_MAPPING_def)
  have a: "get_section_info 299 = (py ''Unknown'', py ''Unknown'')"
    using C2_section_resolver [of SECTION_MAPPING 299] none by blast
  have "(py ''Fastener_Anchoring_Systems'', 3, 73) \<in> set SECTION_MAPPING"
    and "(py ''Fastening_Systems'', 74, 91) \<in> set SECTION_MAPPING"
    by (simp_all add: SECTION_MAPPING_def)
  with C2_section_resolver [of SECTION_MAPPING 299]
  have b: "fst (get_section_info 73) = replace_char 95 32 (py ''Fastener_Anchoring_Systems'')"
    and c: "fst (get_section_info 74) = replace_char 95 32 (py ''Fastening_Systems'')"
    by blast+
  have d: "fst (section_scan [(py ''A_B'', 1, 5), (py ''C'', 3, 9)] 4) = py ''A B''"
    using C2_section_resolver [of "[(py ''A_B'', 1, 5), (py ''C'', 3, 9)]" 4]
    by (simp add: replace_char_def py_def)
  show ?thesis
    using a b c d by (simp add: replace_char_def py_def)
qed

section \<open>Product extraction\<close>

lemma foldl_invariant:
  assumes "P a" and "\<And>a x. P a \<Longrightarrow> P (f a x)"
  shows "P (foldl f a xs)"
  using assms(1) by (induction xs arbitrary: a) (simp_all add: assms(2))

lemma distinct_add_match: "distinct products \<Longrightarrow> distinct (add_match products m)"
  by (simp add: add_match_def Let_def)

lemma distinct_scan_line: "distinct products \<Longrightarrow> distinct (scan_line U products line)"
proof -
  assume d: "distinct products"
  have "distinct (foldl (\<lambda>products pattern. foldl add_match products (findall pattern l))
                    products ps)" for l ps
  proof (rule foldl_invariant [where P = distinct])
    show "distinct products" by (rule d)
  next
    fix a :: "pystr list" and x :: rx
    assume "distinct a"
    then show "distinct (foldl add_match a (findall x l))"
      by (rule foldl_invariant [where P = distinct]) (rule distinct_add_match)
  qed
  with d show ?thesis
    by (simp add: scan_line_def Let_def)
qed

text \<open>
  Claim C5. For every input text (and whatever the Unicode tables say),
  \<open>extract_products\<close> returns at most 10 entries and no string occurs twice in the list.
\<close>

theorem C5_products_bounded_distinct:
  "length (extract_products U text) \<le> 10 \<and> distinct (extract_products U text)"
proof -
  have "distinct (foldl (scan_line U) [] (take 50 (split 10 text)))"
    by (rule foldl_invariant [where P = distinct]) (simp_all add: distinct_scan_line)
  then show ?thesis
    by (simp add: extract_products_def Let_def)
qed

theorem C5_products_bounded_distinct_witness:
  "extract_products ascii_ucd (py ''HEAVY BOXES HEAVY'') =
     [py ''HEAVY BOXES HEAVY'', py ''HEAVY'', py ''BOXES'']
   \<and> length (extract_products ascii_ucd (py ''HEAVY BOXES HEAVY'')) \<le> 10
   \<and> distinct (extract_products ascii_ucd (py ''HEAVY BOXES HEAVY''))"
proof -
  have "extract_products ascii_ucd (py ''HEAVY BOXES HEAVY'') =
      [py ''HEAVY BOXES HEAVY'', py ''HEAVY'', py ''BOXES'']"
    by (simp add: products_eval regex_eval string_eval)
  with C5_products_bounded_distinct [of ascii_ucd "py ''HEAVY BOXES HEAVY''"] show ?thesis
    by simp
qed

section \<open>Section index\<close>

lemma entry_section_process_pdf:
  "entry_section (process_pdf U raw page_num) = fst (get_section_info page_num)"
  by (simp add: process_pdf_def Let_def split: prod.split)

lemma get_group_process_step:
  "get_group (snd (process_step U (es, g) (p, raw))) k =
     get_group g k @ (if fst (get_section_info p) = k then [p] else [])"
  by (simp add: process_step_def Let_def get_group_def entry_section_process_pdf)

lemma get_group_foldl:
  "get_group (snd (foldl (process_step U) st fs)) k =
     get_group (snd st) k @ filter (\<lambda>p. fst (get_section_info p) = k) (map fst fs)"
proof (induction fs arbitrary: st)
  case Nil
  then show ?case by simp
next
  case (Cons f fs)
  obtain es g where st: "st = (es, g)" by (cases st)
  obtain p raw where f: "f = (p, raw)" by (cases f)
  show ?case
    using Cons.IH [of "process_step U (es, g) (p, raw)"]
    by (simp add: st f get_group_process_step)
qed

lemma build_section_index_table:
  "build_section_index g =
     map (\<lambda>(n, s, e).
            (replace_char 95 32 n,
             \<lparr> range_str = str_int s @ [EN_DASH] @ str_int e,
               pages = get_group g (replace_char 95 32 n) \<rparr>))
         SECTION_MAPPING"
  by (simp add: build_section_index_def SECTION_MAPPING_def replace_char_def py_def Let_def)

lemma display_names_distinct:
  "distinct (map (\<lambda>(n, s, e). replace_char 95 32 n) SECTION_MAPPING)"
  by (simp add: SECTION_MAPPING_def replace_char_def py_def)

lemma unknown_not_display_name:
  "py ''Unknown'' \<notin> set (map (\<lambda>(n, s, e). replace_char 95 32 n) SECTION_MAPPING)"
  by (simp add: SECTION_MAPPING_def replace_char_def py_def)

lemma snd_main:
  "snd (main U pdf_files) =
     map (\<lambda>(n, s, e).
            (replace_char 95 32 n,
             \<lparr> range_str = str_int s @ [EN_DASH] @ str_int e,
               pages = filter (\<lambda>p. fst (get_section_info p) = replace_char 95 32 n)
                         (map fst (sort_key fst pdf_files)) \<rparr>))
         SECTION_MAPPING"
proof -
  obtain es g where fg: "foldl (process_step U) ([], Map.empty) (sort_key fst pdf_files) = (es, g)"
    by (cases "foldl (process_step U) ([], Map.empty) (sort_key fst pdf_files)")
  have "get_group g k =
      filter (\<lambda>p. fst (get_section_info p) = k) (map fst (sort_key fst pdf_files))" for k
    using get_group_foldl [of U "([], Map.empty)" "sort_key fst pdf_files" k]
    by (simp add: fg get_group_def)
  then show ?thesis
    by (simp add: main_def Let_def fg build_section_index_table)
qed

text \<open>
  Claim C8. For every run (any list of pages with their texts, whatever the Unicode tables
  say), the section index that \<open>main\<close> builds has exactly the display names of the fixed
  table as its keys, in table order and each once; the entry of a section carries the range
  string (start, an en dash, end) and the pages of the run (in page order) that resolve to the section,
  which is the empty list for a section no page resolves to; and "Unknown" is never a key,
  even when pages of the run resolve to "Unknown".
\<close>

theorem C8_section_index_covers_table:
  "map fst (snd (main U pdf_files)) = map (\<lambda>(n, s, e). replace_char 95 32 n) SECTION_MAPPING
   \<and> distinct (map fst (snd (main U pdf_files)))
   \<and> (\<forall>(n, s, e) \<in> set SECTION_MAPPING.
         map_of (snd (main U pdf_files)) (replace_char 95 32 n) =
           Some \<lparr> range_str = str_int s @ [EN_DASH] @ str_int e,
                  pages = filter (\<lambda>p. fst (get_section_info p) = replace_char 95 32 n)
                            (map fst (sort_key fst pdf_files)) \<rparr>)
   \<and> (\<forall>(n, s, e) \<in> set SECTION_MAPPING.
         (\<forall>p \<in> fst ` set pdf_files. fst (get_section_info p) \<noteq> replace_char 95 32 n) \<longrightarrow>
         map_option pages (map_of (snd (main U pdf_files)) (replace_char 95 32 n)) = Some [])
   \<and> py ''Unknown'' \<notin> fst ` set (snd (main U pdf_files))"
proof -
  let ?row = "\<lambda>(n, s, e).
            (replace_char 95 32 n,
             \<lparr> range_str = str_int s @ [EN_DASH] @ str_int e,
               pages = filter (\<lambda>p. fst (get_section_info p) = replace_char 95 32 n)
                         (map fst (sort_key fst pdf_files)) \<rparr>)"
  have keys: "map fst (snd (main U pdf_files)) =
      map (\<lambda>(n, s, e). replace_char 95 32 n) SECTION_MAPPING"
    by (simp add: snd_main case_prod_unfold comp_def)
  have dist: "distinct (map fst (snd (main U pdf_files)))"
    by (simp only: keys display_names_distinct)
  have look: "map_of (snd (main U pdf_files)) (replace_char 95 32 n) = Some (snd (?row (n, s, e)))"
    if "(n, s, e) \<in> set SECTION_MAPPING" for n s e
  proof -
    from that have "?row (n, s, e) \<in> set (snd (main U pdf_files))"
      unfolding snd_main set_map by (rule imageI)
    with dist show ?thesis
      by (simp add: map_of_is_SomeI)
  qed
  have c3: "\<forall>(n, s, e) \<in> set SECTION_MAPPING.
         map_of (snd (main U pdf_files)) (replace_char 95 32 n) =
           Some \<lparr> range_str = str_int s @ [EN_DASH] @ str_int e,
                  pages = filter (\<lambda>p. fst (get_section_info p) = replace_char 95 32 n)
                            (map fst (sort_key fst pdf_files)) \<rparr>"
    using look by auto
  have empty: "filter (\<lambda>p. fst (get_section_info p) = k) (map fst (sort_key fst pdf_files)) = []"
    if "\<forall>p \<in> fst ` set pdf_files. fst (get_section_info p) \<noteq> k" for k
    using that by (auto simp: filter_empty_conv)
  have c4: "\<forall>(n, s, e) \<in> set SECTION_MAPPING.
         (\<forall>p \<in> fst ` set pdf_files. fst (get_section_info p) \<noteq> replace_char 95 32 n) \<longrightarrow>
         map_option pages (map_of (snd (main U pdf_files)) (replace_char 95 32 n)) = Some []"
  proof (rule ballI)
    fix x
    assume xm: "x \<in> set SECTION_MAPPING"
    obtain n s e where x: "x = (n, s, e)"
      by (cases x) auto
    have "(\<forall>p \<in> fst ` set pdf_files. fst (get_section_info p) \<noteq> replace_char 95 32 n) \<longrightarrow>
         map_option pages (map_of (snd (main U pdf_files)) (replace_char 95 32 n)) = Some []"
    proof
      assume none: "\<forall>p \<in> fst ` set pdf_files. fst (get_section_info p) \<noteq> replace_char 95 32 n"
      show "map_option pages (map_of (snd (main U pdf_files)) (replace_char 95 32 n)) = Some []"
        using look [OF xm [unfolded x]] empty [OF none] by simp
    qed
    then show "case x of (n, s, e) \<Rightarrow>
         (\<forall>p \<in> fst ` set pdf_files. fst (get_section_info p) \<noteq> replace_char 95 32 n) \<longrightarrow>
         map_option pages (map_of (snd (main U pdf_files)) (replace_char 95 32 n)) = Some []"
      by (simp add: x)
  qed
  have unk: "py ''Unknown'' \<notin> fst ` set (snd (main U pdf_files))"
    using unknown_not_display_name keys by (metis set_map)
  show ?thesis
    by (intro conjI keys dist c3 c4 unk)
qed


lemmas section_eval = get_section_info_def SECTION_MAPPING_def str_int_def digits.simps

theorem C8_section_index_covers_table_witness:
  "map_of (snd (main ascii_ucd [(300, []), (5, py ''x'')])) (py ''Fastener Anchoring Systems'') =
     Some \<lparr> range_str = py ''3'' @ [8211] @ py ''73'', pages = [5] \<rparr>
   \<and> map_option pages (map_of (snd (main ascii_ucd [(300, []), (5, py ''x'')])) (py ''Ladders'')) = Some []
   \<and> fst (get_section_info 300) = py ''Unknown''
   \<and> py ''Unknown'' \<notin> fst ` set (snd (main ascii_ucd [(300, []), (5, py ''x'')]))"
proof -
  let ?files = "[(300, []), (5, py ''x'')] :: (int \<times> pystr) list"
  note inst = C8_section_index_covers_table [of ascii_ucd ?files]
  have m1: "(py ''Fastener_Anchoring_Systems'', 3, 73) \<in> set SECTION_MAPPING"
    and m2: "(py ''Ladders'', 132, 134) \<in> set SECTION_MAPPING"
    by (simp_all add: SECTION_MAPPING_def)
  have s300: "fst (get_section_info 300) = py ''Unknown''"
    and s5: "fst (get_section_info 5) = py ''Fastener Anchoring Systems''"
    by (simp_all add: section_eval string_eval)
  have none: "\<forall>p \<in> fst ` set ?files. fst (get_section_info p) \<noteq> replace_char 95 32 (py ''Ladders'')"
    by (simp add: s300 s5) (simp add: string_eval)
  from inst m1 have a: "map_of (snd (main ascii_ucd ?files)) (replace_char 95 32 (py ''Fastener_Anchoring_Systems'')) =
           Some \<lparr> range_str = str_int 3 @ [EN_DASH] @ str_int 73,
                  pages = filter (\<lambda>p. fst (get_section_info p) = replace_char 95 32 (py ''Fastener_Anchoring_Systems''))
                            (map fst (sort_key fst ?files)) \<rparr>"
    by blast
  from inst m2 none have b: "map_option pages (map_of (snd (main ascii_ucd ?files)) (replace_char 95 32 (py ''Ladders''))) = Some []"
    by blast
  from inst have c: "py ''Unknown'' \<notin> fst ` set (snd (main ascii_ucd ?files))"
    by blast
  have names: "replace_char 95 32 (py ''Fastener_Anchoring_Systems'') = py ''Fastener Anchoring Systems''"
     "replace_char 95 32 (py ''Ladders'') = py ''Ladders''"
    by (simp_all add: string_eval)
  have sorted_files: "map fst (sort_key fst ?files) = [5, 300]"
    by simp
  have nums: "str_int 3 = py ''3''" "str_int 73 = py ''73''"
    by (simp_all add: section_eval string_eval)
  have flt: "filter (\<lambda>p. fst (get_section_info p) = py ''Fastener Anchoring Systems'') [5, 300] = [5]"
    by (simp add: s300 s5) (simp add: py_def)
  show ?thesis
    using a b c s300 unfolding names sorted_files nums flt
    by (simp add: EN_DASH_def)
qed

section \<open>Keyword extraction\<close>

lemma finite_keyword_set: "finite (keyword_set U text title products)"
  by (simp add: keyword_set_def Let_def)

lemma take_sorted_smallest:
  fixes xs :: "'a::linorder list"
  assumes "sorted xs" and "distinct xs" and "x \<in> set (take n xs)"
    and "y \<in> set xs - set (take n xs)"
  shows "x < y"
proof -
  have split: "xs = take n xs @ drop n xs"
    by simp
  from assms(4) have y: "y \<in> set (drop n xs)"
    by (metis DiffD1 DiffD2 UnE append_take_drop_id set_append)
  from assms(1) have "sorted (take n xs @ drop n xs)"
    by simp
  then have "x \<le> y"
    using assms(3) y by (auto simp only: sorted_append)
  moreover from assms(2) have "distinct (take n xs @ drop n xs)"
    by simp
  then have "x \<noteq> y"
    using assms(3) y by (auto simp only: distinct_append)
  ultimately show ?thesis
    by simp
qed

text \<open>
  Claim C4. For every text, title and product list (and whatever the Unicode tables say),
  the output of \<open>extract_keywords\<close> is sorted ascending, has no duplicates and has at most
  15 entries; its entries are the first 15 of the whole keyword set in sorted order, that is,
  they are keywords, every keyword left out is greater than every keyword returned, and
  nothing is left out unless 15 keywords are returned.
\<close>

theorem C4_keywords_sorted_smallest:
  "sorted (extract_keywords U text title products)
   \<and> distinct (extract_keywords U text title products)
   \<and> length (extract_keywords U text title products) \<le> 15
   \<and> extract_keywords U text title products =
       take 15 (sorted_list_of_set (keyword_set U text title products))
   \<and> set (extract_keywords U text title products) \<subseteq> keyword_set U text title products
   \<and> (\<forall>x \<in> set (extract_keywords U text title products).
        \<forall>y \<in> keyword_set U text title products - set (extract_keywords U text title products).
          x < y)
   \<and> length (extract_keywords U text title products) =
       min 15 (card (keyword_set U text title products))"
proof -
  let ?K = "keyword_set U text title products"
  let ?all = "sorted_list_of_set ?K"
  have fin: "finite ?K"
    by (rule finite_keyword_set)
  have out: "extract_keywords U text title products = take 15 ?all"
    by (simp add: extract_keywords_def)
  have s: "sorted ?all" and d: "distinct ?all"
    by simp_all
  have setall: "set ?all = ?K"
    using fin by simp
  have c1: "sorted (take 15 ?all)"
    using s by (rule sorted_wrt_take)
  have c2: "distinct (take 15 ?all)"
    using d by (rule distinct_take)
  have c5: "set (take 15 ?all) \<subseteq> ?K"
    using set_take_subset [of 15 ?all] setall by simp
  have c6: "\<forall>x \<in> set (take 15 ?all). \<forall>y \<in> ?K - set (take 15 ?all). x < y"
    using take_sorted_smallest [OF s d] setall by blast
  have c7: "length (take 15 ?all) = min 15 (card ?K)"
    by (simp add: min.commute)
  show ?thesis
    unfolding out using c1 c2 c5 c6 c7 by simp
qed



lemmas keywords_eval = common_terms_def word_pattern_def

lemma kw_title_words:
  "findall (word_pattern ascii_ucd) (py_lower ascii_ucd (py ''Zebra Yard Page'')) =
     [py ''zebra'', py ''yard'', py ''page'']"
  by (simp add: keywords_eval string_eval regex_eval)

lemma kw_vocab:
  "filter (\<lambda>term. str_in term (py_lower ascii_ucd (py ''saw pin''))) common_terms =
     [py ''saw'', py ''pin'']"
  by (simp add: keywords_eval string_eval)

lemma kw_products:
  "concat (map (\<lambda>product. take 3 (findall (word_pattern ascii_ucd) (py_lower ascii_ucd product)))
     [py ''Wrench tape steel rest'', py ''screw rivet pliers'', py ''nail metal mask'',
      py ''hammer drill bolt'', py ''alpha wood'']) =
   [py ''wrench'', py ''tape'', py ''steel'', py ''screw'', py ''rivet'', py ''pliers'',
    py ''nail'', py ''metal'', py ''mask'', py ''hammer'', py ''drill'', py ''bolt'',
    py ''alpha'', py ''wood'']"
  by (simp add: keywords_eval string_eval regex_eval)

lemma kw_set:
  "keyword_set ascii_ucd (py ''saw pin'') (py ''Zebra Yard Page'')
     [py ''Wrench tape steel rest'', py ''screw rivet pliers'', py ''nail metal mask'',
      py ''hammer drill bolt'', py ''alpha wood''] =
   set ([py ''saw'', py ''pin''] @ [py ''zebra'', py ''yard''] @
   [py ''wrench'', py ''tape'', py ''steel'', py ''screw'', py ''rivet'', py ''pliers'',
    py ''nail'', py ''metal'', py ''mask'', py ''hammer'', py ''drill'', py ''bolt'',
    py ''alpha'', py ''wood''])"
proof -
  have f: "filter (\<lambda>word. word \<notin> set [py ''page'', py ''pages'', py ''catalog''])
             [py ''zebra'', py ''yard'', py ''page''] = [py ''zebra'', py ''yard'']"
    by (simp add: py_def)
  show ?thesis
    unfolding keyword_set_def Let_def kw_title_words kw_vocab kw_products f
    by (simp only: set_append Un_assoc)
qed

lemma kw_out:
  "extract_keywords ascii_ucd (py ''saw pin'') (py ''Zebra Yard Page'')
     [py ''Wrench tape steel rest'', py ''screw rivet pliers'', py ''nail metal mask'',
      py ''hammer drill bolt'', py ''alpha wood''] =
   [py ''alpha'', py ''bolt'', py ''drill'', py ''hammer'', py ''mask'', py ''metal'',
    py ''nail'', py ''pin'', py ''pliers'', py ''rivet'', py ''saw'', py ''screw'',
    py ''steel'', py ''tape'', py ''wood'']"
  unfolding extract_keywords_def kw_set sorted_list_of_set_sort_remdups
  by (simp add: py_def)

theorem C4_keywords_sorted_smallest_witness:
  "extract_keywords ascii_ucd (py ''saw pin'') (py ''Zebra Yard Page'')
     [py ''Wrench tape steel rest'', py ''screw rivet pliers'', py ''nail metal mask'',
      py ''hammer drill bolt'', py ''alpha wood''] =
   [py ''alpha'', py ''bolt'', py ''drill'', py ''hammer'', py ''mask'', py ''metal'',
    py ''nail'', py ''pin'', py ''pliers'', py ''rivet'', py ''saw'', py ''screw'',
    py ''steel'', py ''tape'', py ''wood'']
   \<and> py ''wrench'' \<in> keyword_set ascii_ucd (py ''saw pin'') (py ''Zebra Yard Page'')
     [py ''Wrench tape steel rest'', py ''screw rivet pliers'', py ''nail metal mask'',
      py ''hammer drill bolt'', py ''alpha wood'']
   \<and> py ''wood'' < py ''wrench''"
proof -
  let ?ps = "[py ''Wrench tape steel rest'', py ''screw rivet pliers'', py ''nail metal mask'',
      py ''hammer drill bolt'', py ''alpha wood'']"
  let ?out = "extract_keywords ascii_ucd (py ''saw pin'') (py ''Zebra Yard Page'') ?ps"
  let ?K = "keyword_set ascii_ucd (py ''saw pin'') (py ''Zebra Yard Page'') ?ps"
  have inK: "py ''wrench'' \<in> ?K"
    unfolding kw_set by simp
  have notout: "py ''wrench'' \<notin> set ?out"
    unfolding kw_out by (simp add: py_def)
  have inout: "py ''wood'' \<in> set ?out"
    unfolding kw_out by simp
  from C4_keywords_sorted_smallest [of ascii_ucd "py ''saw pin''" "py ''Zebra Yard Page''" ?ps]
  have "\<forall>x \<in> set ?out. \<forall>y \<in> ?K - set ?out. x < y"
    by blast
  with inK notout inout have "py ''wood'' < py ''wrench''"
    by blast
  with inK kw_out show ?thesis
    by blast
qed

section \<open>What a match consumes\<close>

lemma rx_rep_consumes:
  "(b', a') \<in> set (rx_rep P n b a) \<Longrightarrow>
     \<exists>m. a = m @ a' \<and> b' = rev m @ b \<and> list_all P m \<and> n \<le> length m"
proof (induction a arbitrary: n b)
  case Nil
  then show ?case by (simp split: if_splits)
next
  case (Cons c a)
  from Cons.prems consider
    (more) "P c" "(b', a') \<in> set (rx_rep P (n - 1) (c # b) a)"
    | (stop) "n = 0" "b' = b" "a' = c # a"
    by (auto split: if_splits)
  then show ?case
  proof cases
    case more
    from Cons.IH [OF more(2)] obtain m where
      m: "a = m @ a'" "b' = rev m @ c # b" "list_all P m" "n - 1 \<le> length m"
      by auto
    show ?thesis
    proof (intro exI conjI)
      show "c # a = (c # m) @ a'" using m(1) by simp
      show "b' = rev (c # m) @ b" using m(2) by simp
      show "list_all P (c # m)" using m(3) more(1) by simp
      show "n \<le> length (c # m)" using m(4) by simp
    qed
  next
    case stop
    then show ?thesis by simp
  qed
qed

lemma rx_wordb_consumes:
  "(b', a') \<in> set (rx_wordb w (b, a)) \<Longrightarrow> b' = b \<and> a' = a"
  by (simp add: rx_wordb_def split: if_splits)

lemma word_pattern_consumes:
  assumes "(b', a') \<in> set (word_pattern U (b, a))"
  shows "\<exists>m. a = m @ a' \<and> list_all is_az m \<and> 4 \<le> length m"
proof -
  let ?w = "\<lambda>c. py_isalnum U c \<or> c = 95"
  from assms obtain c1 c2 where
    c1: "c1 \<in> set (rx_wordb ?w (b, a))" and
    c2: "c2 \<in> set (rx_repeat is_az 4 c1)" and
    c3: "(b', a') \<in> set (rx_wordb ?w c2)"
    by (auto simp: word_pattern_def rx_seq_def Let_def)
  from c1 have e1: "c1 = (b, a)"
    using rx_wordb_consumes [of "fst c1" "snd c1" ?w b a] by (simp add: prod_eq_iff)
  from c3 have e3: "c2 = (b', a')"
    using rx_wordb_consumes [of b' a' ?w "fst c2" "snd c2"] by (simp add: prod_eq_iff)
  from c2 have "(b', a') \<in> set (rx_rep is_az 4 b a)"
    by (simp add: e1 e3 rx_repeat_def)
  from rx_rep_consumes [OF this] show ?thesis
    by blast
qed

lemma findall_from_matches:
  "(\<And>b a b' a'. (b', a') \<in> set (r (b, a)) \<Longrightarrow> \<exists>m. a = m @ a' \<and> Q m) \<Longrightarrow>
   w \<in> set (findall_from r b a) \<Longrightarrow> Q w"
proof (induction r b a rule: findall_from.induct)
  case (1 r b a)
  note rq = 1(4) and win = 1(5)
  show ?case
  proof (cases "r (b, a)")
    case Nil
    show ?thesis
    proof (cases a)
      case Nil
      with win \<open>r (b, a) = []\<close> show ?thesis
        by (simp add: findall_from.simps [of r b "[]"])
    next
      case (Cons c a0)
      with win \<open>r (b, a) = []\<close> have "w \<in> set (findall_from r (c # b) a0)"
        by (simp add: findall_from.simps [of r b "c # a0"])
      with 1(1) [OF \<open>r (b, a) = []\<close> Cons] rq show ?thesis
        by blast
    qed
  next
    case (Cons cur rest)
    obtain b' a' where cur: "cur = (b', a')"
      by (cases cur)
    have "(b', a') \<in> set (r (b, a))"
      by (simp add: Cons cur)
    from rq [OF this] obtain m where m: "a = m @ a'" "Q m"
      by blast
    have matched: "take (length a - length a') a = m"
      by (simp add: m(1))
    from win have "w = m \<or>
        (length a' < length a \<and> w \<in> set (findall_from r b' a')) \<or>
        (\<not> length a' < length a \<and> (\<exists>c a0. a = c # a0 \<and> w \<in> set (findall_from r (c # b) a0)))"
      unfolding findall_from.simps [of r b a] Cons cur
      by (auto simp: matched split: if_splits list.splits)
    then show ?thesis
    proof (elim disjE conjE exE)
      assume "w = m"
      with m(2) show ?thesis by simp
    next
      assume l: "length a' < length a" and w: "w \<in> set (findall_from r b' a')"
      show ?thesis
        by (rule 1(2) [OF Cons cur [symmetric] l rq w])
    next
      fix c a0
      assume l: "\<not> length a' < length a" and a: "a = c # a0"
        and w: "w \<in> set (findall_from r (c # b) a0)"
      show ?thesis
        by (rule 1(3) [OF Cons cur [symmetric] l a rq w])
    qed
  qed
qed


lemma findall_word_pattern_az:
  "w \<in> set (findall (word_pattern U) s) \<Longrightarrow> list_all is_az w \<and> 4 \<le> length w"
proof -
  assume "w \<in> set (findall (word_pattern U) s)"
  then have w: "w \<in> set (findall_from (word_pattern U) [] s)"
    by (simp add: findall_def)
  show ?thesis
    by (rule findall_from_matches [where r = "word_pattern U" and b = "[]" and a = s,
          OF word_pattern_consumes w])
qed

lemma common_terms_lowercase:
  "list_all (list_all (\<lambda>c. is_az c \<or> c = 32)) common_terms"
  by (simp add: common_terms_def py_def is_az_def)

lemma keyword_set_lowercase:
  assumes "k \<in> keyword_set U text title products"
  shows "list_all (\<lambda>c. is_az c \<or> c = 32) k"
proof -
  from assms consider
    (vocab) "k \<in> set common_terms"
    | (title) "k \<in> set (findall (word_pattern U) (py_lower U title))"
    | (product) product where "k \<in> set (take 3 (findall (word_pattern U) (py_lower U product)))"
    by (auto simp: keyword_set_def Let_def)
  then show ?thesis
  proof cases
    case vocab
    with common_terms_lowercase show ?thesis
      by (simp add: list_all_iff)
  next
    case title
    from findall_word_pattern_az [OF this] show ?thesis
      by (simp add: list_all_iff)
  next
    case product
    then have "k \<in> set (findall (word_pattern U) (py_lower U product))"
      by (rule in_set_takeD)
    from findall_word_pattern_az [OF this] show ?thesis
      by (simp add: list_all_iff)
  qed
qed

text \<open>
  Claim C10. For every text, title and product list (and whatever the Unicode tables say),
  every character of every string that \<open>extract_keywords\<close> returns is a lower-case ASCII
  letter \<open>a\<close>..\<open>z\<close> or a space (the space of the two-word vocabulary terms), so no keyword
  contains an upper-case letter: the vocabulary terms are lower-case literals, and the words
  taken from the title and the products are matches of \<open>[a-z]{4,}\<close>.
\<close>

theorem C10_keywords_lowercase:
  "\<forall>k \<in> set (extract_keywords U text title products).
     \<forall>c \<in> set k. (is_az c \<or> c = 32) \<and> \<not> is_AZ c"
proof (intro ballI)
  fix k c
  assume k: "k \<in> set (extract_keywords U text title products)" and c: "c \<in> set k"
  from k have "k \<in> set (sorted_list_of_set (keyword_set U text title products))"
    unfolding extract_keywords_def by (rule in_set_takeD)
  then have "k \<in> keyword_set U text title products"
    by (simp add: finite_keyword_set)
  from keyword_set_lowercase [OF this] c have "is_az c \<or> c = 32"
    by (simp add: list_all_iff)
  then show "(is_az c \<or> c = 32) \<and> \<not> is_AZ c"
    by (auto simp: is_az_def is_AZ_def)
qed

theorem C10_keywords_lowercase_witness:
  "py ''wood'' \<in> set (extract_keywords ascii_ucd (py ''saw pin'') (py ''Zebra Yard Page'')
     [py ''Wrench tape steel rest'', py ''screw rivet pliers'', py ''nail metal mask'',
      py ''hammer drill bolt'', py ''alpha wood''])
   \<and> py ''Wrench'' \<notin> set (extract_keywords ascii_ucd (py ''saw pin'') (py ''Zebra Yard Page'')
     [py ''Wrench tape steel rest'', py ''screw rivet pliers'', py ''nail metal mask'',
      py ''hammer drill bolt'', py ''alpha wood''])"
proof -
  let ?out = "extract_keywords ascii_ucd (py ''saw pin'') (py ''Zebra Yard Page'')
     [py ''Wrench tape steel rest'', py ''screw rivet pliers'', py ''nail metal mask'',
      py ''hammer drill bolt'', py ''alpha wood'']"
  note inst = C10_keywords_lowercase [of ascii_ucd "py ''saw pin''" "py ''Zebra Yard Page''"
     "[py ''Wrench tape steel rest'', py ''screw rivet pliers'', py ''nail metal mask'',
      py ''hammer drill bolt'', py ''alpha wood'']"]
  have a: "py ''wood'' \<in> set ?out"
    unfolding kw_out by simp
  have "87 \<in> set (py ''Wrench'')" "is_AZ 87"
    by (simp_all add: py_def is_AZ_def)
  with inst have c: "py ''Wrench'' \<notin> set ?out"
    by blast
  from a c show ?thesis
    by blast
qed

section \<open>Normalisation\<close>

lemma rx_rep_greedy:
  "(rx_rep P n b a = [] \<longleftrightarrow> length (takeWhile P a) < n) \<and>
   (rx_rep P n b a \<noteq> [] \<longrightarrow>
      hd (rx_rep P n b a) = (rev (takeWhile P a) @ b, dropWhile P a))"
proof (induction a arbitrary: n b)
  case Nil
  then show ?case by simp
next
  case (Cons c a)
  show ?case
  proof (cases "P c")
    case True
    note ih = Cons.IH [of "n - 1" "c # b"]
    show ?thesis
    proof (cases "rx_rep P (n - 1) (c # b) a = []")
      case True
      with ih have "length (takeWhile P a) < n - 1"
        by simp
      with True \<open>P c\<close> show ?thesis
        by auto
    next
      case False
      with ih have "\<not> length (takeWhile P a) < n - 1"
        and "hd (rx_rep P (n - 1) (c # b) a) = (rev (takeWhile P a) @ c # b, dropWhile P a)"
        by simp_all
      with False \<open>P c\<close> show ?thesis
        by (auto simp: hd_append)
    qed
  next
    case False
    then show ?thesis by simp
  qed
qed

lemma sub_spaces_collapse: "sub_from rx_spaces [32] b a = collapse a"
proof (induction a arbitrary: b rule: collapse.induct)
  case 1
  show ?case
    by (simp add: sub_from.simps [of _ _ _ "[]"] rx_spaces_def rx_repeat_def)
next
  case (2 c s)
  show ?case
  proof (cases "isspace c")
    case True
    let ?r = "rx_rep isspace 1 b (c # s)"
    from True have ne: "?r \<noteq> []"
      using rx_rep_greedy [of isspace 1 b "c # s"] by simp
    then have h: "hd ?r = (rev (takeWhile isspace (c # s)) @ b, dropWhile isspace s)"
      using rx_rep_greedy [of isspace 1 b "c # s"] True by simp
    from ne obtain rest where r: "?r = (rev (takeWhile isspace (c # s)) @ b, dropWhile isspace s) # rest"
      using h by (cases ?r) auto
    have len: "length (dropWhile isspace s) < length (c # s)"
      by (simp add: length_dropWhile_le le_imp_less_Suc)
    have "sub_from rx_spaces [32] b (c # s) =
        [32] @ sub_from rx_spaces [32] (rev (takeWhile isspace (c # s)) @ b) (dropWhile isspace s)"
      unfolding sub_from.simps [of rx_spaces "[32]" b "c # s"]
      using r len by (simp add: rx_spaces_def rx_repeat_def)
    with 2(1) [OF True] True show ?thesis
      by simp
  next
    case False
    then have "rx_spaces (b, c # s) = []"
      by (simp add: rx_spaces_def rx_repeat_def)
    then have "sub_from rx_spaces [32] b (c # s) = c # sub_from rx_spaces [32] (c # b) s"
      by (simp add: sub_from.simps [of rx_spaces "[32]" b "c # s"])
    with 2(2) [OF False] False show ?thesis
      by simp
  qed
qed


lemma single_spaced_Cons_nonspace:
  "\<not> isspace c \<Longrightarrow> single_spaced (c # xs) = single_spaced xs"
  by (cases xs) simp_all

lemma single_spaced_collapse: "single_spaced (collapse s)"
proof (induction s rule: collapse.induct)
  case 1
  show ?case by simp
next
  case (2 c s)
  show ?case
  proof (cases "isspace c")
    case True
    from True have step: "collapse (c # s) = 32 # collapse (dropWhile isspace s)"
      by simp
    show ?thesis
    proof (cases "dropWhile isspace s")
      case Nil
      have "collapse (c # s) = [32]"
        unfolding step Nil by simp
      then show ?thesis
        by simp
    next
      case (Cons d t)
      then have d: "\<not> isspace d"
        using hd_dropWhile [of isspace s] by simp
      have ih: "single_spaced (collapse (d # t))"
        using 2(1) [OF True] unfolding Cons .
      have "collapse (c # s) = 32 # d # collapse t"
        unfolding step Cons using d by simp
      moreover from ih d have "single_spaced (d # collapse t)"
        by simp
      ultimately show ?thesis
        using d by simp
    qed
  next
    case False
    with 2(2) show ?thesis
      by (simp add: single_spaced_Cons_nonspace)
  qed
qed

lemma collapse_fixed: "single_spaced s \<Longrightarrow> collapse s = s"
  by (induction s rule: single_spaced.induct) auto

lemma single_spaced_append:
  "single_spaced (xs @ ys) \<Longrightarrow> single_spaced xs \<and> single_spaced ys"
proof (induction xs rule: single_spaced.induct)
  case 1
  then show ?case by simp
next
  case (2 c)
  then show ?case by (cases ys) auto
next
  case (3 c d s)
  then show ?case by auto
qed

lemma single_spaced_only_space:
  "single_spaced s \<Longrightarrow> c \<in> set s \<Longrightarrow> isspace c \<Longrightarrow> c = 32"
  by (induction s rule: single_spaced.induct) auto

lemma replace_ff_fixed:
  assumes "single_spaced s"
  shows "replace_char 12 32 s = s"
proof -
  have "c \<noteq> 12" if "c \<in> set s" for c
    using single_spaced_only_space [OF assms that] by (auto simp: isspace_def)
  then show ?thesis
    unfolding replace_char_def by (induction s) auto
qed

lemma lstrip_decomp: "s = takeWhile isspace s @ lstrip s"
  by (simp add: lstrip_def)

lemma rstrip_decomp: "s = rstrip s @ rev (takeWhile isspace (rev s))"
proof -
  have "rstrip s @ rev (takeWhile isspace (rev s)) =
      rev (takeWhile isspace (rev s) @ dropWhile isspace (rev s))"
    by (simp only: rstrip_def rev_append)
  also have "\<dots> = s"
    by (simp only: takeWhile_dropWhile_id rev_rev_ident)
  finally show ?thesis
    by simp
qed

lemma single_spaced_strip: "single_spaced s \<Longrightarrow> single_spaced (strip s)"
proof -
  assume "single_spaced s"
  then have "single_spaced (takeWhile isspace s @ lstrip s)"
    using lstrip_decomp [of s] by simp
  then have "single_spaced (lstrip s)"
    using single_spaced_append by blast
  then have "single_spaced (rstrip (lstrip s) @ rev (takeWhile isspace (rev (lstrip s))))"
    using rstrip_decomp [of "lstrip s"] by simp
  then show ?thesis
    unfolding strip_def using single_spaced_append by blast
qed

lemma lstrip_fixed: "s = [] \<or> \<not> isspace (hd s) \<Longrightarrow> lstrip s = s"
  by (cases s) (auto simp: lstrip_def)

lemma rstrip_fixed: "s = [] \<or> \<not> isspace (last s) \<Longrightarrow> rstrip s = s"
proof (cases s rule: rev_cases)
  case Nil
  then show ?thesis by (simp add: rstrip_def)
next
  case (snoc ys y)
  moreover assume "s = [] \<or> \<not> isspace (last s)"
  ultimately show ?thesis by (simp add: rstrip_def)
qed

lemma strip_last: "strip s \<noteq> [] \<Longrightarrow> \<not> isspace (last (strip s))"
proof -
  assume ne: "strip s \<noteq> []"
  let ?d = "dropWhile isspace (rev (lstrip s))"
  from ne have "?d \<noteq> []"
    by (simp add: strip_def rstrip_def)
  then have "\<not> isspace (hd ?d)"
    by (rule hd_dropWhile)
  moreover have "last (strip s) = hd ?d"
    using \<open>?d \<noteq> []\<close> by (simp add: strip_def rstrip_def last_rev)
  ultimately show ?thesis
    by simp
qed

lemma strip_hd: "strip s \<noteq> [] \<Longrightarrow> \<not> isspace (hd (strip s))"
proof -
  assume ne: "strip s \<noteq> []"
  have dec: "lstrip s = strip s @ rev (takeWhile isspace (rev (lstrip s)))"
    unfolding strip_def by (rule rstrip_decomp)
  with ne have l: "lstrip s \<noteq> []"
    by auto
  from dec ne have "hd (lstrip s) = hd (strip s)"
    by (metis hd_append2)
  moreover from l have "\<not> isspace (hd (lstrip s))"
    unfolding lstrip_def by (rule hd_dropWhile)
  ultimately show ?thesis
    by simp
qed

lemma strip_strip: "strip (strip s) = strip s"
proof (cases "strip s = []")
  case True
  have "strip [] = []"
    by (simp add: strip_def lstrip_def rstrip_def)
  then show ?thesis
    unfolding True .
next
  case False
  from strip_hd [OF False] have "lstrip (strip s) = strip s"
    by (simp add: lstrip_fixed)
  moreover from strip_last [OF False] have "rstrip (strip s) = strip s"
    by (simp add: rstrip_fixed)
  ultimately show ?thesis
    by (simp add: strip_def [of "strip s"])
qed

lemma clean_text_collapse: "clean_text x = strip (replace_char 12 32 (collapse x))"
  by (simp add: clean_text_def re_sub_def py_def sub_spaces_collapse)

lemma single_spaced_clean_text: "single_spaced (clean_text x)"
  by (simp add: clean_text_collapse replace_ff_fixed single_spaced_collapse single_spaced_strip)

text \<open>
  Claim C7. \<open>clean_text\<close> is idempotent: for every string \<open>x\<close>, cleaning the cleaned
  text gives the cleaned text. Its result has no whitespace character other than the space
  (so no form feed and no line break), no two spaces in a row, and no space at either end.
\<close>

theorem C7_clean_text_idempotent:
  "clean_text (clean_text x) = clean_text x
   \<and> (\<forall>c \<in> set (clean_text x). isspace c \<longrightarrow> c = 32)
   \<and> single_spaced (clean_text x)
   \<and> (clean_text x \<noteq> [] \<longrightarrow>
        \<not> isspace (hd (clean_text x)) \<and> \<not> isspace (last (clean_text x)))"
proof -
  let ?t = "clean_text x"
  have ss: "single_spaced ?t"
    by (rule single_spaced_clean_text)
  have st: "strip ?t = ?t"
    by (simp add: clean_text_collapse strip_strip)
  have "clean_text ?t = strip (replace_char 12 32 (collapse ?t))"
    by (rule clean_text_collapse)
  also have "\<dots> = strip ?t"
    by (simp add: collapse_fixed [OF ss] replace_ff_fixed [OF ss])
  finally have idem: "clean_text ?t = ?t"
    by (simp add: st)
  have only: "\<forall>c \<in> set ?t. isspace c \<longrightarrow> c = 32"
    using single_spaced_only_space [OF ss] by blast
  have ends: "?t \<noteq> [] \<longrightarrow> \<not> isspace (hd ?t) \<and> \<not> isspace (last ?t)"
    using strip_hd [of ?t] strip_last [of ?t] by (simp add: st)
  show ?thesis
    using idem only ss ends by blast
qed

theorem C7_clean_text_idempotent_witness:
  "clean_text (py ''  a   b '' @ [10, 12, 10] @ py ''c  '') = py ''a b c''
   \<and> clean_text (py ''a b c'') = py ''a b c''"
proof -
  have a: "clean_text (py ''  a   b '' @ [10, 12, 10] @ py ''c  '') = py ''a b c''"
    by (simp add: clean_text_def string_eval regex_eval)
  have "py ''a b c'' \<noteq> []"
    by (simp add: py_def)
  with C7_clean_text_idempotent [of "py ''  a   b '' @ [10, 12, 10] @ py ''c  ''"] a
  show ?thesis
    by simp
qed

section \<open>Titles\<close>

lemma split_not_Nil: "split d s \<noteq> []"
  by (induction s) (auto split: list.splits)

lemma hd_split: "hd (split d s) = takeWhile (\<lambda>c. c \<noteq> d) s"
proof (induction s)
  case Nil
  show ?case by simp
next
  case (Cons c s)
  then show ?case
    using split_not_Nil [of d s] by (cases "split d s") auto
qed

lemma split_no_separator: "d \<notin> set s \<Longrightarrow> split d s = [s]"
  by (induction s) auto

lemma collapse_append:
  "single_spaced xs \<Longrightarrow> xs \<noteq> [] \<Longrightarrow> \<not> isspace (last xs) \<Longrightarrow>
     collapse (xs @ t) = xs @ collapse t"
  by (induction xs rule: single_spaced.induct) auto

lemma replace_char_append:
  "replace_char a b (xs @ ys) = replace_char a b xs @ replace_char a b ys"
  by (simp add: replace_char_def)

lemma rstrip_append:
  assumes "xs \<noteq> []" and "\<not> isspace (last xs)"
  shows "\<exists>z. rstrip (xs @ ys) = xs @ z"
proof -
  from assms have "dropWhile isspace (rev xs) = rev xs"
    by (cases xs rule: rev_cases) auto
  then have "dropWhile isspace (rev ys @ rev xs) = rev xs \<or>
      dropWhile isspace (rev ys @ rev xs) = dropWhile isspace (rev ys) @ rev xs"
    by (simp add: dropWhile_append)
  then have "rstrip (xs @ ys) = xs \<or> rstrip (xs @ ys) = xs @ rev (dropWhile isspace (rev ys))"
    by (auto simp: rstrip_def)
  then show ?thesis
    by auto
qed

lemma clean_text_keeps_first_line:
  assumes ss: "single_spaced X" and ne: "X \<noteq> []"
    and h: "\<not> isspace (hd X)" and l: "\<not> isspace (last X)"
    and first: "hd (split 10 raw) = X"
  shows "\<exists>z. clean_text raw = X @ z"
proof -
  from first have "raw = X @ dropWhile (\<lambda>c. c \<noteq> 10) raw"
    by (metis hd_split takeWhile_dropWhile_id)
  then have "collapse raw = X @ collapse (dropWhile (\<lambda>c. c \<noteq> 10) raw)"
    using collapse_append [OF ss ne l] by metis
  then have "replace_char 12 32 (collapse raw) =
      X @ replace_char 12 32 (collapse (dropWhile (\<lambda>c. c \<noteq> 10) raw))"
    by (simp add: replace_char_append replace_ff_fixed [OF ss])
  then obtain y where y: "replace_char 12 32 (collapse raw) = X @ y"
    by blast
  from ne h have "lstrip (X @ y) = X @ y"
    by (cases X) (auto simp: lstrip_def)
  moreover from rstrip_append [OF ne l] obtain z where "rstrip (X @ y) = X @ z"
    by blast
  ultimately show ?thesis
    by (simp add: clean_text_collapse y strip_def)
qed

lemma strip_clean_text: "strip (clean_text x) = clean_text x"
  by (simp add: clean_text_collapse strip_strip)

lemma no_newline_clean_text: "10 \<notin> set (clean_text x)"
  using single_spaced_only_space [OF single_spaced_clean_text, of 10 x] by (auto simp: isspace_def)

lemma title_lines_clean_text:
  "clean_text x \<noteq> [] \<Longrightarrow> title_lines (clean_text x) = [clean_text x]"
  by (simp add: title_lines_def split_no_separator [OF no_newline_clean_text] strip_clean_text)

lemma title_headings_single:
  "title_headings U [line] = [] \<or> title_headings U [line] = [strip line]"
  by (simp add: title_headings_def)

lemma extract_title_clean_text:
  assumes tx: "clean_text x = X @ z" and long: "10 < length X" and short: "length X \<le> 77"
    and c: "hd X \<noteq> 67"
  shows "\<exists>t. extract_title U (clean_text x) page_num = X @ t"
proof -
  let ?text = "clean_text x"
  from long have Xne: "X \<noteq> []"
    by auto
  with tx have ne: "?text \<noteq> []"
    by simp
  have lines: "title_lines ?text = [?text]"
    by (rule title_lines_clean_text [OF ne])
  have t77: "take 77 ?text = X @ take (77 - length X) z"
    using short by (simp add: tx)
  have t80: "take 80 ?text = X @ take (80 - length X) z"
    using short by (simp add: tx)
  from title_headings_single [of U ?text] show ?thesis
  proof
    assume none: "title_headings U [?text] = []"
    from Xne c have "\<not> startswith (X @ z) (py ''CAT'')"
      by (cases X) (auto simp: py_def)
    then have ns: "\<not> startswith ?text (py ''CAT'')"
      unfolding tx .
    from long have lg: "10 < length ?text"
      by (simp add: tx)
    have "extract_title U ?text page_num = take 80 ?text"
      by (simp add: extract_title_def lines none Let_def ns lg)
    with t80 show ?thesis
      by simp
  next
    assume one: "title_headings U [?text] = [strip ?text]"
    have "extract_title U ?text page_num =
        (if length ?text > 80 then take 77 ?text @ py ''...'' else ?text)"
      by (simp add: extract_title_def lines one Let_def strip_clean_text)
    with t77 tx show ?thesis
      by (cases "length ?text > 80") auto
  qed
qed

lemma startswith_append: "startswith (p @ z) p"
  by (induction p) auto

lemma startswith_str_in: "startswith s sub \<Longrightarrow> str_in sub s"
  by (cases s; cases sub) auto

text \<open>
  Claim C9. For every raw text whose first line is "HEAVY DUTY CONCRETE ANCHOR SYSTEM"
  (every page number, whatever the Unicode tables say), the title that \<open>extract_title\<close>
  gives for the cleaned text contains that phrase; indeed the title starts with it, whether
  the heading rule or the first fallback rule selects it.
\<close>

theorem C9_first_line_in_title:
  "hd (split 10 raw) = py ''HEAVY DUTY CONCRETE ANCHOR SYSTEM'' \<Longrightarrow>
     str_in (py ''HEAVY DUTY CONCRETE ANCHOR SYSTEM'') (extract_title U (clean_text raw) page_num)
     \<and> startswith (extract_title U (clean_text raw) page_num)
          (py ''HEAVY DUTY CONCRETE ANCHOR SYSTEM'')"
proof -
  let ?X = "py ''HEAVY DUTY CONCRETE ANCHOR SYSTEM''"
  assume first: "hd (split 10 raw) = ?X"
  have ss: "single_spaced ?X"
    by (simp add: py_def isspace_def)
  have ne: "?X \<noteq> []" and h: "\<not> isspace (hd ?X)" and l: "\<not> isspace (last ?X)"
    and c: "hd ?X \<noteq> 67" and len: "10 < length ?X" "length ?X \<le> 77"
    by (simp_all add: py_def isspace_def)
  from clean_text_keeps_first_line [OF ss ne h l first] obtain z where
    "clean_text raw = ?X @ z"
    by blast
  from extract_title_clean_text [OF this len c] obtain t where
    "extract_title U (clean_text raw) page_num = ?X @ t"
    by blast
  then show ?thesis
    by (simp add: startswith_append startswith_str_in)
qed


lemmas title_eval =
  is_heading_def title_skip_def has_skip_pattern_def title_lines_def title_headings_def
  extract_title_def

theorem C9_first_line_in_title_witness:
  "hd (split 10 (py ''HEAVY DUTY CONCRETE ANCHOR SYSTEM'' @ [10] @ py ''CAT # 123 sku'')) =
     py ''HEAVY DUTY CONCRETE ANCHOR SYSTEM''
   \<and> extract_title ascii_ucd
       (clean_text (py ''HEAVY DUTY CONCRETE ANCHOR SYSTEM'' @ [10] @ py ''CAT # 123 sku'')) 5 =
     py ''HEAVY DUTY CONCRETE ANCHOR SYSTEM CAT # 123 sku''
   \<and> str_in (py ''HEAVY DUTY CONCRETE ANCHOR SYSTEM'')
       (extract_title ascii_ucd
         (clean_text (py ''HEAVY DUTY CONCRETE ANCHOR SYSTEM'' @ [10] @ py ''CAT # 123 sku'')) 5)"
proof -
  let ?raw = "py ''HEAVY DUTY CONCRETE ANCHOR SYSTEM'' @ [10] @ py ''CAT # 123 sku''"
  have first: "hd (split 10 ?raw) = py ''HEAVY DUTY CONCRETE ANCHOR SYSTEM''"
    by (simp add: py_def)
  have clean: "clean_text ?raw = py ''HEAVY DUTY CONCRETE ANCHOR SYSTEM CAT # 123 sku''"
    by (simp add: clean_text_def string_eval regex_eval)
  have title: "extract_title ascii_ucd (py ''HEAVY DUTY CONCRETE ANCHOR SYSTEM CAT # 123 sku'') 5 =
      py ''HEAVY DUTY CONCRETE ANCHOR SYSTEM CAT # 123 sku''"
    by (simp add: title_eval string_eval)
  from C9_first_line_in_title [OF first, of ascii_ucd 5] first clean title show ?thesis
    by simp
qed

section \<open>Pages without text\<close>

lemma clean_text_empty: "clean_text [] = []"
  by (simp add: clean_text_def string_eval regex_eval)

lemma extract_title_empty:
  "extract_title U [] page_num =
     fst (get_section_info page_num) @ [32, EN_DASH, 32] @ py ''Page '' @ str_int page_num"
  by (simp add: title_eval string_eval)

lemma extract_products_empty: "extract_products U [] = []"
  by (simp add: extract_products_def scan_line_def string_eval)

lemma no_term_in_empty: "filter (\<lambda>term. str_in term []) common_terms = []"
  by (simp add: common_terms_def py_def)

lemma generate_summary_empty:
  "py_lower U [] = [] \<Longrightarrow>
     generate_summary U [] title [] = py ''This page includes product information.''"
  by (simp add: generate_summary_def py_def)

lemma keyword_set_empty:
  "py_lower U [] = [] \<Longrightarrow>
     keyword_set U [] title [] =
       set (filter (\<lambda>word. word \<notin> set [py ''page'', py ''pages'', py ''catalog''])
              (findall (word_pattern U) (py_lower U title)))"
proof -
  assume l: "py_lower U [] = []"
  show ?thesis
    unfolding keyword_set_def Let_def l no_term_in_empty by simp
qed

text \<open>
  Claim C6. When the extraction of a page yields the empty string, \<open>process_pdf\<close> still
  returns a full record: the products list is empty, the summary is exactly "This page
  includes product information.", the title is the section name, " (en dash) Page " and the page
  number, and the keywords are those that \<open>extract_keywords\<close> draws from that title alone,
  each of them a word of the lower-cased title (no vocabulary term occurs in the empty text).
  For page 10 the title is exactly "Fastener Anchoring Systems (en dash) Page 10". The lower-casing
  of the empty string is taken to be the empty string, as it is in Python.
\<close>

theorem C6_empty_text_record:
  "py_lower U [] = [] \<Longrightarrow>
     entry_page (process_pdf U [] page_num) = page_num
     \<and> entry_section (process_pdf U [] page_num) = fst (get_section_info page_num)
     \<and> entry_products (process_pdf U [] page_num) = []
     \<and> entry_summary (process_pdf U [] page_num) = py ''This page includes product information.''
     \<and> entry_title (process_pdf U [] page_num) =
         fst (get_section_info page_num) @ [32, EN_DASH, 32] @ py ''Page '' @ str_int page_num
     \<and> entry_keywords (process_pdf U [] page_num) =
         extract_keywords U [] (entry_title (process_pdf U [] page_num)) []
     \<and> set (entry_keywords (process_pdf U [] page_num)) \<subseteq>
         set (findall (word_pattern U) (py_lower U (entry_title (process_pdf U [] page_num))))
     \<and> entry_title (process_pdf U [] 10) =
         py ''Fastener Anchoring Systems'' @ [32, EN_DASH, 32] @ py ''Page 10''"
proof -
  assume l: "py_lower U [] = []"
  let ?e = "process_pdf U [] page_num"
  have title: "entry_title (process_pdf U [] p) =
      fst (get_section_info p) @ [32, EN_DASH, 32] @ py ''Page '' @ str_int p" for p
    by (simp add: process_pdf_def clean_text_empty extract_title_empty Let_def split: prod.split)
  have products: "entry_products ?e = []"
    by (simp add: process_pdf_def clean_text_empty extract_products_empty Let_def split: prod.split)
  have summary: "entry_summary ?e = py ''This page includes product information.''"
    by (simp add: process_pdf_def clean_text_empty extract_products_empty
        generate_summary_empty [OF l] Let_def split: prod.split)
  have kws: "entry_keywords ?e = extract_keywords U [] (entry_title ?e) []"
    by (simp add: process_pdf_def clean_text_empty extract_products_empty Let_def split: prod.split)
  have "set (extract_keywords U [] t []) \<subseteq> set (findall (word_pattern U) (py_lower U t))" for t
  proof -
    have "set (extract_keywords U [] t []) \<subseteq> keyword_set U [] t []"
      unfolding extract_keywords_def using set_take_subset finite_keyword_set
      by (metis sorted_list_of_set.set_sorted_key_list_of_set)
    also have "\<dots> \<subseteq> set (findall (word_pattern U) (py_lower U t))"
      unfolding keyword_set_empty [OF l] by auto
    finally show ?thesis .
  qed
  then have words: "set (entry_keywords ?e) \<subseteq>
      set (findall (word_pattern U) (py_lower U (entry_title ?e)))"
    by (simp only: kws)
  have page: "entry_page ?e = page_num" and sect: "entry_section ?e = fst (get_section_info page_num)"
    by (simp_all add: process_pdf_def Let_def split: prod.split)
  have ten: "entry_title (process_pdf U [] 10) =
      py ''Fastener Anchoring Systems'' @ [32, EN_DASH, 32] @ py ''Page 10''"
    unfolding title by (simp add: section_eval string_eval)
  show ?thesis
    by (intro conjI page sect products summary title kws words ten)
qed


lemma kw_page10:
  "extract_keywords ascii_ucd []
     (py ''Fastener Anchoring Systems'' @ [32, EN_DASH, 32] @ py ''Page 10'') [] =
   [py ''anchoring'', py ''fastener'', py ''systems'']"
proof -
  have low: "py_lower ascii_ucd [] = []"
    by (simp add: ascii_ucd_def)
  have words: "findall (word_pattern ascii_ucd)
      (py_lower ascii_ucd (py ''Fastener Anchoring Systems'' @ [32, EN_DASH, 32] @ py ''Page 10'')) =
      [py ''fastener'', py ''anchoring'', py ''systems'', py ''page'']"
    by (simp add: word_pattern_def string_eval regex_eval)
  have f: "filter (\<lambda>word. word \<notin> set [py ''page'', py ''pages'', py ''catalog''])
      [py ''fastener'', py ''anchoring'', py ''systems'', py ''page''] =
      [py ''fastener'', py ''anchoring'', py ''systems'']"
    by (simp add: py_def)
  show ?thesis
    unfolding extract_keywords_def keyword_set_empty [OF low] words f
      sorted_list_of_set_sort_remdups
    by (simp add: py_def)
qed

theorem C6_empty_text_record_witness:
  "py_lower ascii_ucd [] = []
   \<and> entry_page (process_pdf ascii_ucd [] 10) = 10
   \<and> entry_filename (process_pdf ascii_ucd [] 10) = py ''ocr_trim_page_0010.pdf''
   \<and> entry_thumbnail (process_pdf ascii_ucd [] 10) = py ''thumbnails/page_0010.png''
   \<and> entry_section (process_pdf ascii_ucd [] 10) = py ''Fastener Anchoring Systems''
   \<and> entry_pageRangeGroup (process_pdf ascii_ucd [] 10) = py ''Pages 10'' @ [8211] @ py ''19''
   \<and> entry_title (process_pdf ascii_ucd [] 10) =
       py ''Fastener Anchoring Systems'' @ [32, 8211, 32] @ py ''Page 10''
   \<and> entry_products (process_pdf ascii_ucd [] 10) = []
   \<and> entry_keywords (process_pdf ascii_ucd [] 10) =
       [py ''anchoring'', py ''fastener'', py ''systems'']
   \<and> entry_summary (process_pdf ascii_ucd [] 10) = py ''This page includes product information.''"
proof -
  have low: "py_lower ascii_ucd [] = []"
    by (simp add: ascii_ucd_def)
  note inst = C6_empty_text_record [OF low, of 10]
  from inst have title: "entry_title (process_pdf ascii_ucd [] 10) =
      py ''Fastener Anchoring Systems'' @ [32, EN_DASH, 32] @ py ''Page 10''"
    by blast
  from inst have "entry_keywords (process_pdf ascii_ucd [] 10) =
      extract_keywords ascii_ucd [] (entry_title (process_pdf ascii_ucd [] 10)) []"
    by blast
  then have kws: "entry_keywords (process_pdf ascii_ucd [] 10) =
      [py ''anchoring'', py ''fastener'', py ''systems'']"
    unfolding title kw_page10 .
  from inst have products: "entry_products (process_pdf ascii_ucd [] 10) = []"
    and summary: "entry_summary (process_pdf ascii_ucd [] 10) =
      py ''This page includes product information.''"
    and page: "entry_page (process_pdf ascii_ucd [] 10) = 10"
    by blast+
  have sect: "get_section_info 10 =
      (py ''Fastener Anchoring Systems'', py ''Pages 10'' @ [8211] @ py ''19'')"
    by (simp add: section_eval string_eval)
  have files: "entry_filename (process_pdf ascii_ucd [] 10) = py ''ocr_trim_page_0010.pdf''"
    "entry_thumbnail (process_pdf ascii_ucd [] 10) = py ''thumbnails/page_0010.png''"
    by (simp_all add: process_pdf_def fmt_04d_def digits.simps py_def Let_def numeral_2_eq_2
        split: prod.split)
  have grp: "entry_section (process_pdf ascii_ucd [] 10) = py ''Fastener Anchoring Systems''"
    "entry_pageRangeGroup (process_pdf ascii_ucd [] 10) = py ''Pages 10'' @ [8211] @ py ''19''"
    by (simp_all add: process_pdf_def sect Let_def)
  show ?thesis
    using low page files grp title products kws summary by (simp add: EN_DASH_def)
qed

section \<open>Table-header lines\<close>

lemma scan_line_header:
  "is_table_header U (strip line) \<Longrightarrow> scan_line U products line = products"
  by (simp add: scan_line_def Let_def)

lemma scan_line_other:
  "\<not> is_table_header U (strip line) \<Longrightarrow> 4 \<le> length (strip line) \<Longrightarrow>
     scan_line U products line =
       foldl (\<lambda>products pattern. foldl add_match products (findall pattern (strip line)))
         products product_patterns"
  by (auto simp: scan_line_def Let_def)

text \<open>
  Claim C3, as the program has it. \<open>extract_products\<close> skips a line as a table-header
  line exactly when the upper-cased line contains one of CAT #, PART NO, SKU, DESCRIPTION,
  QTY, SIZE: such a line leaves the products unchanged, and any other line of four or more
  characters is matched against the three patterns. The markers of \<open>extract_title\<close> are
  CAT #, PART NO, SKU, DESCRIPTION, QTY, BOX: the two lists share their first five markers and
  differ in the sixth (SIZE for products, BOX for titles).
\<close>

theorem C3_product_header_markers:
  "(is_table_header U line \<longleftrightarrow>
      str_in (py ''CAT #'') (py_upper U line) \<or> str_in (py ''PART NO'') (py_upper U line) \<or>
      str_in (py ''SKU'') (py_upper U line) \<or> str_in (py ''DESCRIPTION'') (py_upper U line) \<or>
      str_in (py ''QTY'') (py_upper U line) \<or> str_in (py ''SIZE'') (py_upper U line))
   \<and> (has_skip_pattern U line \<longleftrightarrow>
      str_in (py ''CAT #'') (py_upper U line) \<or> str_in (py ''PART NO'') (py_upper U line) \<or>
      str_in (py ''SKU'') (py_upper U line) \<or> str_in (py ''DESCRIPTION'') (py_upper U line) \<or>
      str_in (py ''QTY'') (py_upper U line) \<or> str_in (py ''BOX'') (py_upper U line))
   \<and> (is_table_header U (strip line) \<longrightarrow> scan_line U products line = products)
   \<and> (\<not> is_table_header U (strip line) \<and> 4 \<le> length (strip line) \<longrightarrow>
        scan_line U products line =
          foldl (\<lambda>products pattern. foldl add_match products (findall pattern (strip line)))
            products product_patterns)
   \<and> take 5 product_headers = take 5 title_skip
   \<and> drop 5 product_headers = [py ''SIZE'']
   \<and> drop 5 title_skip = [py ''BOX'']"
proof -
  have a: "is_table_header U line \<longleftrightarrow>
      str_in (py ''CAT #'') (py_upper U line) \<or> str_in (py ''PART NO'') (py_upper U line) \<or>
      str_in (py ''SKU'') (py_upper U line) \<or> str_in (py ''DESCRIPTION'') (py_upper U line) \<or>
      str_in (py ''QTY'') (py_upper U line) \<or> str_in (py ''SIZE'') (py_upper U line)"
    by (simp add: is_table_header_def product_headers_def)
  have b: "has_skip_pattern U line \<longleftrightarrow>
      str_in (py ''CAT #'') (py_upper U line) \<or> str_in (py ''PART NO'') (py_upper U line) \<or>
      str_in (py ''SKU'') (py_upper U line) \<or> str_in (py ''DESCRIPTION'') (py_upper U line) \<or>
      str_in (py ''QTY'') (py_upper U line) \<or> str_in (py ''BOX'') (py_upper U line)"
    by (simp add: has_skip_pattern_def title_skip_def)
  have c: "take 5 product_headers = take 5 title_skip"
    "drop 5 product_headers = [py ''SIZE'']" "drop 5 title_skip = [py ''BOX'']"
    by (simp_all add: product_headers_def title_skip_def)
  show ?thesis
    using a b c scan_line_header [of U line products] scan_line_other [of U line products]
    by blast
qed

theorem C3_product_header_markers_witness:
  "is_table_header ascii_ucd (py ''Size chart LARGE'')
   \<and> scan_line ascii_ucd [py ''HEAVY''] (py ''Size chart LARGE'') = [py ''HEAVY'']
   \<and> \<not> has_skip_pattern ascii_ucd (py ''Size chart LARGE'')
   \<and> \<not> is_table_header ascii_ucd (py ''HEAVY BOXES'')
   \<and> scan_line ascii_ucd [py ''HEAVY''] (py ''HEAVY BOXES'') =
       [py ''HEAVY'', py ''HEAVY BOXES'', py ''BOXES'']"
proof -
  have up1: "py_upper ascii_ucd (py ''Size chart LARGE'') = py ''SIZE CHART LARGE''"
    and up2: "py_upper ascii_ucd (py ''HEAVY BOXES'') = py ''HEAVY BOXES''"
    and st1: "strip (py ''Size chart LARGE'') = py ''Size chart LARGE''"
    and st2: "strip (py ''HEAVY BOXES'') = py ''HEAVY BOXES''"
    by (simp_all add: string_eval)
  note i1 = C3_product_header_markers [of ascii_ucd "py ''Size chart LARGE''" "[py ''HEAVY'']",
      unfolded st1 up1]
  note i2 = C3_product_header_markers [of ascii_ucd "py ''HEAVY BOXES''" "[py ''HEAVY'']",
      unfolded st2 up2]
  have "str_in (py ''SIZE'') (py ''SIZE CHART LARGE'')"
    by (simp add: py_def)
  with i1 have h1: "is_table_header ascii_ucd (py ''Size chart LARGE'')"
    by blast
  with i1 have s1: "scan_line ascii_ucd [py ''HEAVY''] (py ''Size chart LARGE'') = [py ''HEAVY'']"
    by blast
  have "\<not> (str_in (py ''CAT #'') (py ''SIZE CHART LARGE'') \<or>
      str_in (py ''PART NO'') (py ''SIZE CHART LARGE'') \<or>
      str_in (py ''SKU'') (py ''SIZE CHART LARGE'') \<or>
      str_in (py ''DESCRIPTION'') (py ''SIZE CHART LARGE'') \<or>
      str_in (py ''QTY'') (py ''SIZE CHART LARGE'') \<or>
      str_in (py ''BOX'') (py ''SIZE CHART LARGE''))"
    by (simp add: py_def)
  with i1 have t1: "\<not> has_skip_pattern ascii_ucd (py ''Size chart LARGE'')"
    by blast
  have "\<not> (str_in (py ''CAT #'') (py ''HEAVY BOXES'') \<or>
      str_in (py ''PART NO'') (py ''HEAVY BOXES'') \<or>
      str_in (py ''SKU'') (py ''HEAVY BOXES'') \<or>
      str_in (py ''DESCRIPTION'') (py ''HEAVY BOXES'') \<or>
      str_in (py ''QTY'') (py ''HEAVY BOXES'') \<or>
      str_in (py ''SIZE'') (py ''HEAVY BOXES''))"
    by (simp add: py_def)
  with i2 have h2: "\<not> is_table_header ascii_ucd (py ''HEAVY BOXES'')"
    by blast
  have len: "4 \<le> length (py ''HEAVY BOXES'')"
    by (simp add: string_eval)
  from i2 h2 len have "scan_line ascii_ucd [py ''HEAVY''] (py ''HEAVY BOXES'') =
      foldl (\<lambda>products pattern. foldl add_match products (findall pattern (py ''HEAVY BOXES'')))
        [py ''HEAVY''] product_patterns"
    by blast
  also have "\<dots> = [py ''HEAVY'', py ''HEAVY BOXES'', py ''BOXES'']"
    by (simp add: products_eval regex_eval string_eval)
  finally have s2: "scan_line ascii_ucd [py ''HEAVY''] (py ''HEAVY BOXES'') =
      [py ''HEAVY'', py ''HEAVY BOXES'', py ''BOXES'']" .
  from h1 s1 t1 h2 s2 show ?thesis
    by blast
qed

theorem C3_box_line_counterexample:
  "str_in (py ''BOX'') (py ''HEAVY BOXES'')
   \<and> has_skip_pattern ascii_ucd (py ''HEAVY BOXES'')
   \<and> \<not> is_table_header ascii_ucd (py ''HEAVY BOXES'')
   \<and> extract_products ascii_ucd (py ''HEAVY BOXES'') =
       [py ''HEAVY BOXES'', py ''HEAVY'', py ''BOXES'']"
  by (simp add: products_eval regex_eval string_eval title_skip_def has_skip_pattern_def)

section \<open>Lines after normalisation\<close>

lemma title_lines_clean_text_le: "length (title_lines (clean_text raw)) \<le> 1"
proof (cases "clean_text raw = []")
  case True
  have "title_lines [] = []"
    by (simp add: title_lines_def string_eval)
  then show ?thesis
    by (simp add: True)
next
  case False
  then show ?thesis
    by (simp add: title_lines_clean_text)
qed

lemma title_lines_thirty_one:
  "title_lines thirty_one_lines =
     [py ''1'', py ''1'', py ''1'', py ''1'', py ''1'', py ''1'', py ''1'', py ''1'', py ''1'', py ''1'',
      py ''1'', py ''1'', py ''1'', py ''1'', py ''1'', py ''1'', py ''1'', py ''1'', py ''1'', py ''1'',
      py ''1'', py ''1'', py ''1'', py ''1'', py ''1'', py ''1'', py ''1'', py ''1'', py ''1'', py ''1'',
      py ''HEAVY DUTY ANCHOR'']"
  by (simp add: thirty_one_lines_def title_lines_def string_eval)

lemma clean_text_thirty_one:
  "clean_text thirty_one_lines =
     py ''1 1 1 1 1 1 1 1 1 1 1 1 1 1 1 1 1 1 1 1 1 1 1 1 1 1 1 1 1 1 HEAVY DUTY ANCHOR''"
  by (simp add: thirty_one_lines_def clean_text_def string_eval regex_eval)

lemma extract_title_thirty_one_raw:
  "extract_title ascii_ucd thirty_one_lines 5 =
     py ''Fastener Anchoring Systems'' @ [32, 8211, 32] @ py ''Page 5''"
  unfolding extract_title_def title_lines_thirty_one
  by (simp add: is_heading_def title_headings_def section_eval string_eval)

lemma extract_title_thirty_one_clean:
  "extract_title ascii_ucd
     (py ''1 1 1 1 1 1 1 1 1 1 1 1 1 1 1 1 1 1 1 1 1 1 1 1 1 1 1 1 1 1 HEAVY DUTY ANCHOR'') 5 =
     py ''1 1 1 1 1 1 1 1 1 1 1 1 1 1 1 1 1 1 1 1 1 1 1 1 1 1 1 1 1 1 HEAVY DUTY ANCHOR''"
  by (simp add: title_eval string_eval)

text \<open>
  Claim C1. In \<open>process_pdf\<close> the text reaches \<open>extract_title\<close> after \<open>clean_text\<close>,
  which has turned every line break into a space: the cleaned text is at most one line,
  whatever the raw text was. On the page of thirty-one lines, none of the first thirty raw
  lines is a heading and \<open>extract_title\<close> applied to the raw text gives the section and
  page sentinel; applied to the cleaned text, as the program does, it takes the whole page as
  one heading, so the thirty-first raw line is part of the title.
\<close>

theorem C1_headings_from_collapsed_text:
  "length (title_lines (clean_text raw)) \<le> 1
   \<and> length (title_lines thirty_one_lines) = 31
   \<and> title_lines thirty_one_lines ! 30 = py ''HEAVY DUTY ANCHOR''
   \<and> title_headings ascii_ucd (title_lines thirty_one_lines) = []
   \<and> extract_title ascii_ucd thirty_one_lines 5 =
       py ''Fastener Anchoring Systems'' @ [32, 8211, 32] @ py ''Page 5''
   \<and> extract_title ascii_ucd (clean_text thirty_one_lines) 5 =
       py ''1 1 1 1 1 1 1 1 1 1 1 1 1 1 1 1 1 1 1 1 1 1 1 1 1 1 1 1 1 1 HEAVY DUTY ANCHOR''"
proof -
  have a: "length (title_lines thirty_one_lines) = 31"
    and b: "title_lines thirty_one_lines ! 30 = py ''HEAVY DUTY ANCHOR''"
    unfolding title_lines_thirty_one by simp_all
  have c: "title_headings ascii_ucd (title_lines thirty_one_lines) = []"
    unfolding title_lines_thirty_one
    by (simp add: is_heading_def title_headings_def string_eval)
  have d: "extract_title ascii_ucd (clean_text thirty_one_lines) 5 =
      py ''1 1 1 1 1 1 1 1 1 1 1 1 1 1 1 1 1 1 1 1 1 1 1 1 1 1 1 1 1 1 HEAVY DUTY ANCHOR''"
    unfolding clean_text_thirty_one by (rule extract_title_thirty_one_clean)
  show ?thesis
    by (intro conjI title_lines_clean_text_le a b c extract_title_thirty_one_raw d)
qed

end
